theory Spec2Isabelle
  imports Complex_Main
begin

text \<open>
  The validation rules of the forms in \<open>manager/director/apps/sites/forms.py\<close>: the site
  name, the custom domain, the list of extra packages and the memory limit. The forms are
  Django forms; the Python and Django operations they rest on are modelled first, then
  the forms themselves, then the vocabulary of their specification.
\<close>

section \<open>Python strings\<close>

text \<open>
  A Python \<open>str\<close> is a sequence of code points and \<open>len\<close> counts code points. For the
  name, the domain and the packages the model reads a \<^typ>\<open>string\<close> as such a sequence,
  one \<^typ>\<open>char\<close> per code point, which covers the code points U+0000 to U+00FF; their
  patterns name ASCII characters only. Inside that range \<open>str.isspace\<close>, and with it
  \<open>str.strip()\<close> and \<open>str.split()\<close>, hold for exactly the twelve characters listed
  below. The pattern of the memory limit has \<open>\d\<close> and \<open>\s\<close>, which reach beyond that
  range; that field is modelled on lists of code points further down.
\<close>

definition py_isspace :: "char \<Rightarrow> bool" where
  "py_isspace c \<longleftrightarrow> c \<in> set [CHR 0x09, CHR 0x0A, CHR 0x0B, CHR 0x0C, CHR 0x0D,
      CHR 0x1C, CHR 0x1D, CHR 0x1E, CHR 0x1F, CHR '' '', CHR 0x85, CHR 0xA0]"

text \<open>\<open>s.strip()\<close>: drop the whitespace at both ends.\<close>

definition py_strip :: "string \<Rightarrow> string" where
  "py_strip s = rev (dropWhile py_isspace (rev (dropWhile py_isspace s)))"

text \<open>
  \<open>s.split()\<close> without a separator: skip whitespace, cut the next token at the following
  whitespace character, repeat; no empty token is ever produced.
\<close>

function py_split :: "string \<Rightarrow> string list" where
  "py_split [] = []"
| "py_split (c # cs) =
     (if py_isspace c then py_split cs
      else (c # takeWhile (\<lambda>x. \<not> py_isspace x) cs)
             # py_split (dropWhile (\<lambda>x. \<not> py_isspace x) cs))"
  by pat_completeness auto
termination
  by (relation "measure length") (auto simp: length_dropWhile_le less_Suc_eq_le)

text \<open>\<open>s.endswith(suffix)\<close>.\<close>

definition py_endswith :: "string \<Rightarrow> string \<Rightarrow> bool" where
  "py_endswith s suffix \<longleftrightarrow>
     length suffix \<le> length s \<and> drop (length s - length suffix) s = suffix"

section \<open>Python regular expressions\<close>

text \<open>
  The patterns of the name and of the domain use literals, \<open>.\<close>, bracket classes,
  concatenation, \<open>?\<close>, \<open>*\<close>, \<open>+\<close>, \<open>^\<close>, \<open>$\<close> and one negative lookahead \<open>(?!...)\<close>.
  No flag is set, so \<open>.\<close> is every character but the newline, \<open>^\<close> holds at the start
  of the string only, and \<open>$\<close> holds at the end of the string and also just before a
  newline that is the last character.
\<close>

datatype atom = Lit char | Dot | Cls "(char \<times> char) list"

definition in_range :: "char \<Rightarrow> char \<Rightarrow> char \<Rightarrow> bool" where
  "in_range lo hi c \<longleftrightarrow> (of_char lo :: nat) \<le> of_char c \<and> (of_char c :: nat) \<le> of_char hi"

fun atom_ok :: "atom \<Rightarrow> char \<Rightarrow> bool" where
  "atom_ok (Lit a) c = (c = a)"
| "atom_ok Dot c = (c \<noteq> CHR 0x0A)"
| "atom_ok (Cls rs) c = list_ex (\<lambda>(lo, hi). in_range lo hi c) rs"

datatype regex =
    Atom atom
  | Empty
  | Then regex regex
  | Or regex regex
  | Many regex
  | Bol
  | Eol
  | NotAhead regex

text \<open>\<open>r+\<close>, \<open>r?\<close> and a literal string.\<close>

definition Some1 :: "regex \<Rightarrow> regex" where
  "Some1 r = Then r (Many r)"

definition Maybe :: "regex \<Rightarrow> regex" where
  "Maybe r = Or r Empty"

definition Str :: "string \<Rightarrow> regex" where
  "Str s = foldr (\<lambda>c r. Then (Atom (Lit c)) r) s Empty"

text \<open>
  A position in the subject string is the pair of "nothing has been consumed yet" and the
  text that is left. \<open>rems r p\<close> lists every position at which a match of \<open>r\<close> that starts
  at \<open>p\<close> can end: the positions that a backtracking matcher can reach. The forms use
  the truth value of a search only, so the order in which the matcher tries them plays no
  role. An iteration of \<open>*\<close> that consumes nothing is not repeated.
\<close>

fun rems :: "regex \<Rightarrow> bool \<times> string \<Rightarrow> (bool \<times> string) list" where
  "rems (Atom a) (b, []) = []"
| "rems (Atom a) (b, c # cs) = (if atom_ok a c then [(False, cs)] else [])"
| "rems Empty p = [p]"
| "rems (Then r1 r2) p = concat (map (rems r2) (rems r1 p))"
| "rems (Or r1 r2) p = rems r1 p @ rems r2 p"
| "rems (Many r) p = p # concat (map (rems (Many r))
      (filter (\<lambda>q. length (snd q) < length (snd p)) (rems r p)))"
| "rems Bol (b, s) = (if b then [(b, s)] else [])"
| "rems Eol (b, s) = (if s = [] \<or> s = [CHR 0x0A] then [(b, s)] else [])"
| "rems (NotAhead r) p = (if rems r p = [] then [p] else [])"

text \<open>\<open>pattern.search(s)\<close> as a truth value: some start position admits a match.\<close>

definition py_search :: "regex \<Rightarrow> string \<Rightarrow> bool" where
  "py_search r s \<longleftrightarrow> list_ex (\<lambda>k. rems r (k = 0, drop k s) \<noteq> []) [0..<Suc (length s)]"

section \<open>Django validators and \<open>CharField\<close>\<close>

text \<open>
  The forms are declared with Django's \<open>forms.CharField\<close> and \<open>validators\<close>; what a
  declaration means is fixed by Django (\<open>django/forms/fields.py\<close>, \<open>forms.py\<close> and
  \<open>django/core/validators.py\<close>), transcribed here. A \<open>ValidationError\<close> is kept as its
  code, with the message where the form supplies one.
\<close>

datatype ValidationError =
    Required
  | Invalid string
  | MinLength nat
  | MaxLength nat
  | MinValue int
  | MaxValue int
  | NullCharacters
  | Message string

datatype PyError = KeyError

type_synonym validator = "string \<Rightarrow> ValidationError list"

definition RegexValidator :: "regex \<Rightarrow> string \<Rightarrow> validator" where
  "RegexValidator regex message value =
     (if py_search regex value then [] else [Invalid message])"

definition MinLengthValidator :: "nat \<Rightarrow> validator" where
  "MinLengthValidator limit value = (if length value < limit then [MinLength limit] else [])"

definition MaxLengthValidator :: "nat \<Rightarrow> validator" where
  "MaxLengthValidator limit value = (if length value > limit then [MaxLength limit] else [])"

definition ProhibitNullCharactersValidator :: validator where
  "ProhibitNullCharactersValidator value =
     (if CHR 0x00 \<in> set value then [NullCharacters] else [])"

record CharField =
  required :: bool
  max_length :: "nat option"
  min_length :: "nat option"
  strip :: bool
  validators :: "validator list"

text \<open>
  \<open>CharField.__init__\<close>: the validators passed to the field come first, then the ones
  for \<open>min_length\<close> and \<open>max_length\<close>, then the check for null characters.
\<close>

definition CharField_validators :: "CharField \<Rightarrow> validator list" where
  "CharField_validators f =
     validators f
     @ (case min_length f of None \<Rightarrow> [] | Some n \<Rightarrow> [MinLengthValidator n])
     @ (case max_length f of None \<Rightarrow> [] | Some n \<Rightarrow> [MaxLengthValidator n])
     @ [ProhibitNullCharactersValidator]"

text \<open>
  \<open>CharField.to_python\<close>: a value missing from the submitted data (\<open>None\<close>) and the empty
  string are the empty values; any other value is stripped when \<open>strip\<close> is set.
\<close>

definition CharField_to_python :: "CharField \<Rightarrow> string option \<Rightarrow> string" where
  "CharField_to_python f value =
     (case value of
        None \<Rightarrow> []
      | Some v \<Rightarrow> if v = [] then [] else if strip f then py_strip v else v)"

text \<open>
  \<open>Field.clean\<close>: \<open>to_python\<close>, then \<open>validate\<close> (an empty value fails a required field),
  then \<open>run_validators\<close> (skipped for an empty value; the errors of all validators are
  collected).
\<close>

definition CharField_clean :: "CharField \<Rightarrow> string option \<Rightarrow> ValidationError list + string" where
  "CharField_clean f value =
     (let v = CharField_to_python f value in
      if v = [] \<and> required f then Inl [Required]
      else let es = (if v = [] then [] else concat (map (\<lambda>check. check v) (CharField_validators f)))
           in if es = [] then Inr v else Inl es)"

section \<open>Python floats and Django's \<open>FloatField\<close>\<close>

text \<open>
  A Python \<open>float\<close> is a finite double, an infinity or a NaN; a finite double is kept as
  the real number it is. The builtin \<open>float()\<close>, which reads a double from a text or raises
  \<open>ValueError\<close>, is no part of the forms and is a parameter of the field: a function from
  the submitted text to a float, \<open>None\<close> where it raises.
\<close>

datatype pyfloat = Finite real | PosInf | NegInf | NaN

fun isfinite :: "pyfloat \<Rightarrow> bool" where
  "isfinite (Finite x) = True"
| "isfinite PosInf = False"
| "isfinite NegInf = False"
| "isfinite NaN = False"

text \<open>\<open>a < b\<close> and \<open>a > b\<close> for a float \<open>a\<close> and an integer \<open>b\<close>; every comparison with a NaN is false.\<close>

fun float_lt :: "pyfloat \<Rightarrow> int \<Rightarrow> bool" where
  "float_lt (Finite x) b = (x < real_of_int b)"
| "float_lt PosInf b = False"
| "float_lt NegInf b = True"
| "float_lt NaN b = False"

fun float_gt :: "pyfloat \<Rightarrow> int \<Rightarrow> bool" where
  "float_gt (Finite x) b = (x > real_of_int b)"
| "float_gt PosInf b = True"
| "float_gt NegInf b = False"
| "float_gt NaN b = False"

definition MinValueValidator :: "int \<Rightarrow> pyfloat \<Rightarrow> ValidationError list" where
  "MinValueValidator limit value = (if float_lt value limit then [MinValue limit] else [])"

definition MaxValueValidator :: "int \<Rightarrow> pyfloat \<Rightarrow> ValidationError list" where
  "MaxValueValidator limit value = (if float_gt value limit then [MaxValue limit] else [])"

record FloatField =
  float_required :: bool
  min_value :: "int option"
  max_value :: "int option"

text \<open>\<open>IntegerField.__init__\<close>, which \<open>FloatField\<close> inherits: the upper bound is checked first.\<close>

definition FloatField_validators :: "FloatField \<Rightarrow> (pyfloat \<Rightarrow> ValidationError list) list" where
  "FloatField_validators f =
     (case max_value f of None \<Rightarrow> [] | Some n \<Rightarrow> [MaxValueValidator n])
     @ (case min_value f of None \<Rightarrow> [] | Some n \<Rightarrow> [MinValueValidator n])"

definition number_message :: string where
  "number_message = ''Enter a number.''"

text \<open>
  \<open>FloatField.to_python\<close>: a missing value and the empty text give \<open>None\<close>; any other text,
  unstripped, goes to \<open>float()\<close>.
\<close>

definition FloatField_to_python ::
  "('c list \<Rightarrow> pyfloat option) \<Rightarrow> 'c list option \<Rightarrow> ValidationError list + pyfloat option" where
  "FloatField_to_python float value =
     (case value of
        None \<Rightarrow> Inr None
      | Some s \<Rightarrow>
          if s = [] then Inr None
          else (case float s of
                  None \<Rightarrow> Inl [Invalid number_message]
                | Some x \<Rightarrow> Inr (Some x)))"

text \<open>\<open>FloatField.validate\<close>: the check for a required value, then the one for a finite float.\<close>

definition FloatField_validate :: "FloatField \<Rightarrow> pyfloat option \<Rightarrow> ValidationError list" where
  "FloatField_validate f value =
     (case value of
        None \<Rightarrow> if float_required f then [Required] else []
      | Some x \<Rightarrow> if \<not> isfinite x then [Invalid number_message] else [])"

text \<open>\<open>Field.clean\<close> for a \<open>FloatField\<close>; the validators are skipped for \<open>None\<close>.\<close>

definition FloatField_clean ::
  "('c list \<Rightarrow> pyfloat option) \<Rightarrow> FloatField \<Rightarrow> 'c list option
     \<Rightarrow> ValidationError list + pyfloat option" where
  "FloatField_clean float f value =
     (case FloatField_to_python float value of
        Inl es \<Rightarrow> Inl es
      | Inr v \<Rightarrow>
          if FloatField_validate f v \<noteq> [] then Inl (FloatField_validate f v)
          else (case v of
                  None \<Rightarrow> Inr None
                | Some x \<Rightarrow>
                    let es = concat (map (\<lambda>check. check x) (FloatField_validators f))
                    in if es = [] then Inr (Some x) else Inl es))"

section \<open>Strings of code points\<close>

text \<open>
  The memory limit is modelled on the code points themselves: a Python \<open>str\<close> is a list of
  natural numbers. A text of the source is turned into its code points by \<open>ustr\<close>.
\<close>

definition ustr :: "string \<Rightarrow> nat list" where
  "ustr s = map of_char s"

text \<open>
  \<open>str.isspace\<close> for one code point, which is also what \<open>\s\<close> matches in a pattern for
  \<open>str\<close>: the characters of category \<open>Zs\<close> or of bidirectional class \<open>WS\<close>, \<open>B\<close> or \<open>S\<close>.
\<close>

definition cp_isspace :: "nat \<Rightarrow> bool" where
  "cp_isspace c \<longleftrightarrow> c \<in> set [0x09, 0x0A, 0x0B, 0x0C, 0x0D, 0x1C, 0x1D, 0x1E, 0x1F, 0x20,
      0x85, 0xA0, 0x1680, 0x2000, 0x2001, 0x2002, 0x2003, 0x2004, 0x2005, 0x2006, 0x2007,
      0x2008, 0x2009, 0x200A, 0x2028, 0x2029, 0x202F, 0x205F, 0x3000]"

definition cp_strip :: "nat list \<Rightarrow> nat list" where
  "cp_strip s = rev (dropWhile cp_isspace (rev (dropWhile cp_isspace s)))"

text \<open>
  What \<open>\d\<close> matches in a pattern for \<open>str\<close>: the decimal digits of the Unicode database
  of the running Python, category \<open>Nd\<close>. The table grows from version to version and is
  the parameter \<open>nd\<close>; in every version the ten ASCII digits belong to it and no other
  code point below U+0660 does.
\<close>

definition py_isdecimal :: "(nat \<Rightarrow> bool) \<Rightarrow> nat \<Rightarrow> bool" where
  "py_isdecimal nd c \<longleftrightarrow> (0x30 \<le> c \<and> c \<le> 0x39) \<or> (0x660 \<le> c \<and> nd c)"

text \<open>A literal character and a bracket class of literal characters.\<close>

definition cp_lit :: "char \<Rightarrow> nat \<Rightarrow> bool" where
  "cp_lit a c \<longleftrightarrow> c = of_char a"

definition cp_one_of :: "string \<Rightarrow> nat \<Rightarrow> bool" where
  "cp_one_of s c \<longleftrightarrow> c \<in> set (ustr s)"

text \<open>
  Patterns and their matching as before, with a test on code points as atom; the pattern
  of the memory limit has no lookahead.
\<close>

datatype cp_regex =
    CAtom "nat \<Rightarrow> bool"
  | CEmpty
  | CThen cp_regex cp_regex
  | COr cp_regex cp_regex
  | CMany cp_regex
  | CBol
  | CEol

definition CSome1 :: "cp_regex \<Rightarrow> cp_regex" where
  "CSome1 r = CThen r (CMany r)"

definition CMaybe :: "cp_regex \<Rightarrow> cp_regex" where
  "CMaybe r = COr r CEmpty"

fun cp_rems :: "cp_regex \<Rightarrow> bool \<times> nat list \<Rightarrow> (bool \<times> nat list) list" where
  "cp_rems (CAtom a) (b, []) = []"
| "cp_rems (CAtom a) (b, c # cs) = (if a c then [(False, cs)] else [])"
| "cp_rems CEmpty p = [p]"
| "cp_rems (CThen r1 r2) p = concat (map (cp_rems r2) (cp_rems r1 p))"
| "cp_rems (COr r1 r2) p = cp_rems r1 p @ cp_rems r2 p"
| "cp_rems (CMany r) p = p # concat (map (cp_rems (CMany r))
      (filter (\<lambda>q. length (snd q) < length (snd p)) (cp_rems r p)))"
| "cp_rems CBol (b, s) = (if b then [(b, s)] else [])"
| "cp_rems CEol (b, s) = (if s = [] \<or> s = [0x0A] then [(b, s)] else [])"

definition cp_search :: "cp_regex \<Rightarrow> nat list \<Rightarrow> bool" where
  "cp_search r s \<longleftrightarrow> list_ex (\<lambda>k. cp_rems r (k = 0, drop k s) \<noteq> []) [0..<Suc (length s)]"

text \<open>The validators and the \<open>CharField\<close> of above, on code points.\<close>

type_synonym uvalidator = "nat list \<Rightarrow> ValidationError list"

definition URegexValidator :: "cp_regex \<Rightarrow> string \<Rightarrow> uvalidator" where
  "URegexValidator regex message value =
     (if cp_search regex value then [] else [Invalid message])"

definition UMinLengthValidator :: "nat \<Rightarrow> uvalidator" where
  "UMinLengthValidator limit value = (if length value < limit then [MinLength limit] else [])"

definition UMaxLengthValidator :: "nat \<Rightarrow> uvalidator" where
  "UMaxLengthValidator limit value = (if length value > limit then [MaxLength limit] else [])"

definition UProhibitNullCharactersValidator :: uvalidator where
  "UProhibitNullCharactersValidator value = (if 0 \<in> set value then [NullCharacters] else [])"

record UCharField =
  u_required :: bool
  u_max_length :: "nat option"
  u_min_length :: "nat option"
  u_strip :: bool
  u_validators :: "uvalidator list"

definition UCharField_validators :: "UCharField \<Rightarrow> uvalidator list" where
  "UCharField_validators f =
     u_validators f
     @ (case u_min_length f of None \<Rightarrow> [] | Some n \<Rightarrow> [UMinLengthValidator n])
     @ (case u_max_length f of None \<Rightarrow> [] | Some n \<Rightarrow> [UMaxLengthValidator n])
     @ [UProhibitNullCharactersValidator]"

definition UCharField_to_python :: "UCharField \<Rightarrow> nat list option \<Rightarrow> nat list" where
  "UCharField_to_python f value =
     (case value of
        None \<Rightarrow> []
      | Some v \<Rightarrow> if v = [] then [] else if u_strip f then cp_strip v else v)"

definition UCharField_clean ::
  "UCharField \<Rightarrow> nat list option \<Rightarrow> ValidationError list + nat list" where
  "UCharField_clean f value =
     (let v = UCharField_to_python f value in
      if v = [] \<and> u_required f then Inl [Required]
      else let es = (if v = [] then [] else concat (map (\<lambda>check. check v) (UCharField_validators f)))
           in if es = [] then Inr v else Inl es)"

section \<open>Django forms\<close>

record form_state =
  cleaned_data :: "string \<rightharpoonup> string"
  errors :: "(string \<times> ValidationError) list"

definition new_form :: form_state where
  "new_form = \<lparr>cleaned_data = Map.empty, errors = []\<rparr>"

text \<open>\<open>add_error(field, error)\<close> also removes the field from \<open>cleaned_data\<close>.\<close>

definition add_error :: "string \<Rightarrow> ValidationError \<Rightarrow> form_state \<Rightarrow> form_state" where
  "add_error field e st =
     st\<lparr>errors := errors st @ [(field, e)], cleaned_data := (cleaned_data st)(field := None)\<rparr>"

text \<open>One round of \<open>_clean_fields\<close>, for a \<open>CharField\<close> called \<open>name\<close>.\<close>

definition clean_field ::
  "string \<Rightarrow> CharField \<Rightarrow> (string \<rightharpoonup> string) \<Rightarrow> form_state \<Rightarrow> form_state" where
  "clean_field name f data st =
     (case CharField_clean f (data name) of
        Inr v \<Rightarrow> st\<lparr>cleaned_data := (cleaned_data st)(name \<mapsto> v)\<rparr>
      | Inl es \<Rightarrow> foldl (\<lambda>s e. add_error name e s) st es)"

definition is_valid :: "form_state \<Rightarrow> bool" where
  "is_valid st \<longleftrightarrow> errors st = []"

section \<open>The forms of \<open>sites/forms.py\<close>\<close>

subsection \<open>\<open>SiteNamesForm\<close>\<close>

text \<open>The pattern \<^verbatim>\<open>^[a-z0-9]+(-[a-z0-9]+)*$\<close>.\<close>

definition lower_alnum :: atom where
  "lower_alnum = Cls [(CHR ''a'', CHR ''z''), (CHR ''0'', CHR ''9'')]"

definition name_regex :: regex where
  "name_regex =
     Then Bol
       (Then (Then (Some1 (Atom lower_alnum))
                   (Many (Then (Atom (Lit CHR ''-'')) (Some1 (Atom lower_alnum)))))
             Eol)"

definition name_message :: string where
  "name_message = ''Site names must consist of lowercase letters, numbers, and dashes. Dashes must go between two non-dash characters.''"

definition SiteNamesForm_name :: CharField where
  "SiteNamesForm_name =
     \<lparr>required = True, max_length = Some 32, min_length = None, strip = True,
      validators = [MinLengthValidator 2, RegexValidator name_regex name_message]\<rparr>"

text \<open>The form has this one field and no \<open>clean\<close> of its own.\<close>

definition SiteNamesForm_full_clean :: "(string \<rightharpoonup> string) \<Rightarrow> form_state" where
  "SiteNamesForm_full_clean data = clean_field ''name'' SiteNamesForm_name data new_form"

subsection \<open>\<open>DomainForm\<close>\<close>

text \<open>The pattern \<^verbatim>\<open>^(?!(.*\.)?sites\.tjhsst\.edu$)[0-9a-zA-Z_\- .]+$\<close>.\<close>

definition domain_chars :: atom where
  "domain_chars =
     Cls [(CHR ''0'', CHR ''9''), (CHR ''a'', CHR ''z''), (CHR ''A'', CHR ''Z''),
          (CHR ''_'', CHR ''_''), (CHR ''-'', CHR ''-''), (CHR '' '', CHR '' ''),
          (CHR ''.'', CHR ''.'')]"

definition sites_lookahead :: regex where
  "sites_lookahead =
     Then (Then (Maybe (Then (Many (Atom Dot)) (Atom (Lit CHR ''.''))))
                (Str ''sites.tjhsst.edu''))
          Eol"

definition domain_regex :: regex where
  "domain_regex =
     Then Bol (Then (NotAhead sites_lookahead) (Then (Some1 (Atom domain_chars)) Eol))"

definition domain_message :: string where
  "domain_message = ''You can only have one sites.tjhsst.edu domain, the automatically generated one that matches the name of your site.''"

definition DomainForm_domain :: CharField where
  "DomainForm_domain =
     \<lparr>required = False, max_length = Some 255, min_length = None, strip = True,
      validators = [RegexValidator domain_regex domain_message]\<rparr>"

definition admin_message :: string where
  "admin_message = ''Only administrators can add tjhsst.edu domains''"

text \<open>\<open>DomainForm.clean\<close>, with the form's \<open>user_is_superuser\<close> as first argument.\<close>

definition DomainForm_clean :: "bool \<Rightarrow> form_state \<Rightarrow> form_state" where
  "DomainForm_clean user_is_superuser st =
     (if \<not> user_is_superuser then
        (case cleaned_data st ''domain'' of
           None \<Rightarrow> st
         | Some d \<Rightarrow>
             if py_endswith d ''tjhsst.edu''
             then add_error ''domain'' (Message admin_message) st
             else st)
      else st)"

text \<open>The cleaning of the \<open>domain\<close> field, followed by \<open>clean\<close>.\<close>

definition DomainForm_full_clean :: "bool \<Rightarrow> (string \<rightharpoonup> string) \<Rightarrow> form_state" where
  "DomainForm_full_clean user_is_superuser data =
     DomainForm_clean user_is_superuser (clean_field ''domain'' DomainForm_domain data new_form)"

subsection \<open>\<open>ImageSelectForm\<close>\<close>

text \<open>
  Of the three fields only \<open>packages\<close> is a \<open>CharField\<close> and only it is read by
  \<open>clean\<close>; \<open>image\<close>, whose choices come from the database, and \<open>write_run_sh_file\<close>
  keep their values and errors under their own keys and are not modelled. The maximal
  length of a package name is declared on a model outside this module and is a parameter
  here.
\<close>

definition ImageSelectForm_packages :: CharField where
  "ImageSelectForm_packages =
     \<lparr>required = False, max_length = None, min_length = None, strip = True,
      validators = []\<rparr>"

definition packages_message :: string where
  "packages_message = ''One of your package names is too long''"

text \<open>
  \<open>ImageSelectForm.clean\<close>. The lookup \<open>cleaned_data["packages"]\<close> is not guarded, so a
  missing key is a \<open>KeyError\<close>.
\<close>

definition ImageSelectForm_clean :: "nat \<Rightarrow> form_state \<Rightarrow> PyError + form_state" where
  "ImageSelectForm_clean max_package_name_length st =
     (case cleaned_data st ''packages'' of
        None \<Rightarrow> Inl KeyError
      | Some packages \<Rightarrow>
          let package_names = py_split (py_strip packages) in
          if list_ex (\<lambda>name. length name > max_package_name_length) package_names
          then Inr (add_error ''packages'' (Message packages_message) st)
          else Inr st)"

text \<open>The cleaning of the \<open>packages\<close> field, followed by \<open>clean\<close>.\<close>

definition ImageSelectForm_full_clean ::
  "nat \<Rightarrow> (string \<rightharpoonup> string) \<Rightarrow> PyError + form_state" where
  "ImageSelectForm_full_clean max_package_name_length data =
     ImageSelectForm_clean max_package_name_length
       (clean_field ''packages'' ImageSelectForm_packages data new_form)"

subsection \<open>\<open>SiteResourceLimitsForm\<close>\<close>

definition SiteResourceLimitsForm_cpus :: FloatField where
  "SiteResourceLimitsForm_cpus = \<lparr>float_required = False, min_value = Some 0, max_value = Some 3\<rparr>"

text \<open>
  The pattern \<^verbatim>\<open>^(\d+(\s*[KMG]i?B)?)?$\<close> of \<open>mem_limit\<close>, with the table of decimal
  digits that \<open>\d\<close> stands for as parameter. The third field, \<open>notes\<close>, has no check of its
  own and is not modelled.
\<close>

definition mem_regex :: "(nat \<Rightarrow> bool) \<Rightarrow> cp_regex" where
  "mem_regex nd =
     CThen CBol
       (CThen (CMaybe (CThen (CSome1 (CAtom (py_isdecimal nd)))
                            (CMaybe (CThen (CMany (CAtom cp_isspace))
                                      (CThen (CAtom (cp_one_of ''KMG''))
                                        (CThen (CMaybe (CAtom (cp_lit CHR ''i'')))
                                               (CAtom (cp_lit CHR ''B''))))))))
              CEol)"

definition mem_message :: string where
  "mem_message = ''Must be either 1) blank for the default limit or 2) a number followed by one of the suffixes KiB, MiB, or GiB (powers of 1024) or KB, MB, GB (powers of 1000).''"

definition SiteResourceLimitsForm_mem_limit :: "(nat \<Rightarrow> bool) \<Rightarrow> UCharField" where
  "SiteResourceLimitsForm_mem_limit nd =
     \<lparr>u_required = False, u_max_length = Some 10, u_min_length = None, u_strip = True,
      u_validators = [URegexValidator (mem_regex nd) mem_message]\<rparr>"

section \<open>Specification vocabulary\<close>

subsection \<open>The language of a pattern without anchors\<close>

text \<open>
  A pattern built from atoms, concatenation, alternatives and iteration denotes a set of
  words; \<open>rems\<close> on such a pattern is characterised by that set below.
\<close>

fun plain :: "regex \<Rightarrow> bool" where
  "plain (Atom a) = True"
| "plain Empty = True"
| "plain (Then r1 r2) = (plain r1 \<and> plain r2)"
| "plain (Or r1 r2) = (plain r1 \<and> plain r2)"
| "plain (Many r) = plain r"
| "plain Bol = False"
| "plain Eol = False"
| "plain (NotAhead r) = False"

fun lang :: "regex \<Rightarrow> string set" where
  "lang (Atom a) = {[c] | c. atom_ok a c}"
| "lang Empty = {[]}"
| "lang (Then r1 r2) = {u @ v | u v. u \<in> lang r1 \<and> v \<in> lang r2}"
| "lang (Or r1 r2) = lang r1 \<union> lang r2"
| "lang (Many r) = {concat ws | ws. set ws \<subseteq> lang r}"
| "lang Bol = {}"
| "lang Eol = {}"
| "lang (NotAhead r) = {}"

subsection \<open>Site names\<close>

text \<open>
  A well-formed site name in the words of the specification: not empty; lowercase
  letters, digits and dashes only; no dash in front, none at the end, and no two dashes
  in a row.
\<close>

definition name_char :: "char \<Rightarrow> bool" where
  "name_char c \<longleftrightarrow>
     in_range CHR ''a'' CHR ''z'' c \<or> in_range CHR ''0'' CHR ''9'' c \<or> c = CHR ''-''"

fun adjacent_dashes :: "string \<Rightarrow> bool" where
  "adjacent_dashes (x # y # zs) = ((x = CHR ''-'' \<and> y = CHR ''-'') \<or> adjacent_dashes (y # zs))"
| "adjacent_dashes [x] = False"
| "adjacent_dashes [] = False"

definition name_shape :: "string \<Rightarrow> bool" where
  "name_shape w \<longleftrightarrow>
     w \<noteq> [] \<and> list_all name_char w \<and> take 1 w \<noteq> ''-'' \<and> take 1 (rev w) \<noteq> ''-''
     \<and> \<not> adjacent_dashes w"

subsection \<open>Memory limits\<close>

text \<open>
  A memory limit in the words of the specification: empty, or a non-empty run of decimal
  digits that is followed by nothing, or by optional whitespace and one of the six
  suffixes.
\<close>

definition mem_suffixes :: "nat list list" where
  "mem_suffixes = map ustr [''KiB'', ''MiB'', ''GiB'', ''KB'', ''MB'', ''GB'']"

definition mem_shape :: "(nat \<Rightarrow> bool) \<Rightarrow> nat list \<Rightarrow> bool" where
  "mem_shape nd v \<longleftrightarrow>
     v = [] \<or>
     (\<exists>ds ws sfx. ds \<noteq> [] \<and> list_all (py_isdecimal nd) ds \<and>
        (v = ds \<or> (list_all cp_isspace ws \<and> sfx \<in> set mem_suffixes \<and> v = ds @ ws @ sfx)))"

text \<open>
  Decimal digits that every version of the Unicode database has beyond the ASCII ones,
  ARABIC-INDIC DIGIT ZERO to NINE: a table for the examples.
\<close>

definition arabic_indic :: "nat \<Rightarrow> bool" where
  "arabic_indic c \<longleftrightarrow> 0x660 \<le> c \<and> c \<le> 0x669"

subsection \<open>Decimal numerals\<close>

text \<open>
  The number that an unsigned decimal numeral writes: digits, or digits, a point and
  digits.
\<close>

definition is_digit :: "char \<Rightarrow> bool" where
  "is_digit c \<longleftrightarrow> in_range CHR ''0'' CHR ''9'' c"

definition digits_value :: "string \<Rightarrow> nat" where
  "digits_value ds = foldl (\<lambda>n c. 10 * n + (of_char c - 48)) 0 ds"

definition decimal_value :: "string \<Rightarrow> real option" where
  "decimal_value s =
     (let whole = takeWhile is_digit s; rest = dropWhile is_digit s in
      if whole \<noteq> [] \<and> rest = [] then Some (real (digits_value whole))
      else if whole \<noteq> [] \<and> take 1 rest = ''.'' \<and> drop 1 rest \<noteq> []
              \<and> list_all is_digit (drop 1 rest)
      then Some (real (digits_value (whole @ drop 1 rest)) / 10 ^ length (drop 1 rest))
      else None)"

text \<open>
  The values of Python's \<open>float()\<close> on the texts of the examples: \<open>3.0000000000000001\<close> lies
  nearer to the double 3.0 than to any other. On all other texts, which the examples do
  not use, the table has an error.
\<close>

definition float_examples :: "string \<Rightarrow> pyfloat option" where
  "float_examples s =
     (if s = ''3.0000000000000001'' then Some (Finite 3)
      else if s = ''1.5'' then Some (Finite (3 / 2))
      else if s = ''3.5'' then Some (Finite (7 / 2))
      else if s = ''-0.5'' then Some (Finite (- 1 / 2))
      else if s = ''inf'' then Some PosInf
      else if s = ''nan'' then Some NaN
      else None)"

subsection \<open>Tokens of a whitespace-separated list\<close>

text \<open>
  A token of \<open>s\<close> is a maximal block of characters of \<open>s\<close> that holds no whitespace:
  the block is not empty, and on either side it meets the end of \<open>s\<close> or a whitespace
  character.
\<close>

definition is_token :: "string \<Rightarrow> string \<Rightarrow> bool" where
  "is_token t s \<longleftrightarrow>
     t \<noteq> [] \<and> list_all (\<lambda>c. \<not> py_isspace c) t \<and>
     (\<exists>pre post. s = pre @ t @ post
        \<and> (pre = [] \<or> py_isspace (last pre)) \<and> (post = [] \<or> py_isspace (hd post)))"

subsection \<open>Parts of the patterns\<close>

text \<open>
  The part of the name pattern between the anchors, and the shape of what follows the
  first group of letters and digits: groups that each start with one dash.
\<close>

definition name_body :: regex where
  "name_body = Then (Some1 (Atom lower_alnum))
                   (Many (Then (Atom (Lit CHR ''-'')) (Some1 (Atom lower_alnum))))"

definition dash_groups :: "string \<Rightarrow> bool" where
  "dash_groups t \<longleftrightarrow>
     list_all name_char t \<and> \<not> adjacent_dashes t \<and>
     (t = [] \<or> (hd t = CHR ''-'' \<and> last t \<noteq> CHR ''-''))"

abbreviation (input) alnum :: "char \<Rightarrow> bool" where
  "alnum \<equiv> atom_ok lower_alnum"

text \<open>The parts of the memory pattern: the whole between the anchors, and the suffix.\<close>

definition mem_suffix :: cp_regex where
  "mem_suffix =
     CThen (CAtom (cp_one_of ''KMG''))
           (CThen (CMaybe (CAtom (cp_lit CHR ''i''))) (CAtom (cp_lit CHR ''B'')))"

definition mem_body :: "(nat \<Rightarrow> bool) \<Rightarrow> cp_regex" where
  "mem_body nd =
     CMaybe (CThen (CSome1 (CAtom (py_isdecimal nd)))
                   (CMaybe (CThen (CMany (CAtom cp_isspace)) mem_suffix)))"

text \<open>The language of a pattern on code points without anchors.\<close>

fun cp_plain :: "cp_regex \<Rightarrow> bool" where
  "cp_plain (CAtom a) = True"
| "cp_plain CEmpty = True"
| "cp_plain (CThen r1 r2) = (cp_plain r1 \<and> cp_plain r2)"
| "cp_plain (COr r1 r2) = (cp_plain r1 \<and> cp_plain r2)"
| "cp_plain (CMany r) = cp_plain r"
| "cp_plain CBol = False"
| "cp_plain CEol = False"

fun cp_lang :: "cp_regex \<Rightarrow> nat list set" where
  "cp_lang (CAtom a) = {[c] | c. a c}"
| "cp_lang CEmpty = {[]}"
| "cp_lang (CThen r1 r2) = {u @ v | u v. u \<in> cp_lang r1 \<and> v \<in> cp_lang r2}"
| "cp_lang (COr r1 r2) = cp_lang r1 \<union> cp_lang r2"
| "cp_lang (CMany r) = {concat ws | ws. set ws \<subseteq> cp_lang r}"
| "cp_lang CBol = {}"
| "cp_lang CEol = {}"

text \<open>The part of the lookahead of the domain pattern before its anchor.\<close>

definition sites_body :: regex where
  "sites_body =
     Then (Maybe (Then (Many (Atom Dot)) (Atom (Lit CHR ''.'')))) (Str ''sites.tjhsst.edu'')"

abbreviation (input) nsp :: "char \<Rightarrow> bool" where
  "nsp \<equiv> \<lambda>x. \<not> py_isspace x"

section \<open>Lemmas\<close>

subsection \<open>Patterns and languages\<close>

declare rems.simps(6) [simp del]

lemma concat_nonempty_split:
  assumes "set ws \<subseteq> L" "concat ws \<noteq> []"
  shows "\<exists>u vs. u \<noteq> [] \<and> u \<in> L \<and> set vs \<subseteq> L \<and> concat ws = u @ concat vs"
  using assms
proof (induction ws)
  case Nil
  then show ?case by simp
next
  case (Cons a ws)
  show ?case
  proof (cases "a = []")
    case True
    with Cons show ?thesis by simp
  next
    case False
    with Cons.prems show ?thesis by (intro exI[of _ a] exI[of _ ws]) simp
  qed
qed

lemma rems_plain:
  "plain r \<Longrightarrow> set (rems r p) = {(fst p \<and> w = [], s') | w s'. snd p = w @ s' \<and> w \<in> lang r}"
proof (induction r p rule: rems.induct)
  case (1 a b)
  then show ?case by auto
next
  case (2 a b c cs)
  then show ?case by (auto simp: Cons_eq_append_conv)
next
  case (3 p)
  then show ?case by (cases p) auto
next
  case (4 r1 r2 p)
  then have p1: "plain r1" and p2: "plain r2" by simp_all
  note ih1 = 4(1)[OF p1]
  note ih2 = 4(2)[OF _ p2]
  show ?case
  proof (intro set_eqI iffI)
    fix x assume "x \<in> set (rems (Then r1 r2) p)"
    then obtain q where q: "q \<in> set (rems r1 p)" and x: "x \<in> set (rems r2 q)" by auto
    from q ih1 obtain u s1 where u: "q = (fst p \<and> u = [], s1)" "snd p = u @ s1" "u \<in> lang r1"
      by auto
    from x ih2[OF q] obtain v s2 where v: "x = (fst q \<and> v = [], s2)" "snd q = v @ s2" "v \<in> lang r2"
      by auto
    from u v have "x = (fst p \<and> u @ v = [], s2)" "snd p = (u @ v) @ s2" "u @ v \<in> lang (Then r1 r2)"
      by auto
    then show "x \<in> {(fst p \<and> w = [], s') | w s'. snd p = w @ s' \<and> w \<in> lang (Then r1 r2)}"
      by blast
  next
    fix x assume "x \<in> {(fst p \<and> w = [], s') | w s'. snd p = w @ s' \<and> w \<in> lang (Then r1 r2)}"
    then obtain u v s' where x: "x = (fst p \<and> u @ v = [], s')" "snd p = (u @ v) @ s'"
      "u \<in> lang r1" "v \<in> lang r2" by auto
    let ?q = "(fst p \<and> u = [], v @ s')"
    from x ih1 have q: "?q \<in> set (rems r1 p)" by auto
    from ih2[OF q] x have "x \<in> set (rems r2 ?q)" by auto
    with q show "x \<in> set (rems (Then r1 r2) p)" by auto
  qed
next
  case (5 r1 r2 p)
  then show ?case by auto
next
  case (6 r p)
  then have pr: "plain r" by simp
  note ih1 = 6(1)[OF pr]
  have ih2: "\<And>q. q \<in> set (rems r p) \<Longrightarrow> length (snd q) < length (snd p) \<Longrightarrow>
      set (rems (Many r) q) = {(fst q \<and> w = [], s') | w s'. snd q = w @ s' \<and> w \<in> lang (Many r)}"
    using 6(2) 6(3) by simp
  show ?case
  proof (intro set_eqI iffI)
    fix x assume "x \<in> set (rems (Many r) p)"
    then consider "x = p" | q where "q \<in> set (rems r p)" "length (snd q) < length (snd p)"
      "x \<in> set (rems (Many r) q)"
      by (auto simp: rems.simps(6)[of r p])
    then show "x \<in> {(fst p \<and> w = [], s') | w s'. snd p = w @ s' \<and> w \<in> lang (Many r)}"
    proof cases
      case 1
      have "[] \<in> lang (Many r)" by (auto intro: exI[of _ "[]"])
      with 1 show ?thesis by (cases p) auto
    next
      case 2
      from 2(1) ih1 obtain u s1 where u: "q = (fst p \<and> u = [], s1)" "snd p = u @ s1" "u \<in> lang r"
        by auto
      with 2(2) have une: "u \<noteq> []" by auto
      from 2(3) ih2[OF 2(1) 2(2)] obtain v s2 where
        v: "x = (fst q \<and> v = [], s2)" "snd q = v @ s2" "v \<in> lang (Many r)" by auto
      from v(3) obtain ws where ws: "v = concat ws" "set ws \<subseteq> lang r" by auto
      with u have "u @ v = concat (u # ws)" "set (u # ws) \<subseteq> lang r" by auto
      then have "u @ v \<in> lang (Many r)" by (metis (mono_tags, lifting) lang.simps(5) mem_Collect_eq)
      moreover from u v une have "x = (fst p \<and> u @ v = [], s2)" "snd p = (u @ v) @ s2" by auto
      ultimately show ?thesis by blast
    qed
  next
    fix x assume "x \<in> {(fst p \<and> w = [], s') | w s'. snd p = w @ s' \<and> w \<in> lang (Many r)}"
    then obtain ws s' where x: "x = (fst p \<and> concat ws = [], s')" "snd p = concat ws @ s'"
      "set ws \<subseteq> lang r" by auto
    show "x \<in> set (rems (Many r) p)"
    proof (cases "concat ws = []")
      case True
      with x have "x = p" by (cases p) auto
      then show ?thesis by (simp add: rems.simps(6)[of r p])
    next
      case False
      from concat_nonempty_split[OF x(3) False] obtain u vs where
        u: "u \<noteq> []" "u \<in> lang r" "set vs \<subseteq> lang r" "concat ws = u @ concat vs" by blast
      let ?q = "(False, concat vs @ s')"
      from u x ih1 have q: "?q \<in> set (rems r p)" by auto
      from u x have len: "length (snd ?q) < length (snd p)" by auto
      have "concat vs \<in> lang (Many r)" using u(3) by auto
      with ih2[OF q len] have "(False, s') \<in> set (rems (Many r) ?q)" by auto
      moreover from False x have "x = (False, s')" by simp
      moreover from q len have "?q \<in> set (filter (\<lambda>q. length (snd q) < length (snd p)) (rems r p))"
        by simp
      ultimately have "x \<in> set (concat (map (rems (Many r))
          (filter (\<lambda>q. length (snd q) < length (snd p)) (rems r p))))"
        unfolding set_concat set_map by blast
      then show ?thesis by (simp add: rems.simps(6)[of r p])
    qed
  qed
next
  case (7 b s)
  then show ?case by simp
next
  case (8 b s)
  then show ?case by simp
next
  case (9 r p)
  then show ?case by simp
qed

lemma rems_Then_nonempty:
  "rems (Then r1 r2) p \<noteq> [] \<longleftrightarrow> (\<exists>q \<in> set (rems r1 p). rems r2 q \<noteq> [])"
  by simp

lemma py_search_Bol: "py_search (Then Bol r) s \<longleftrightarrow> rems r (True, s) \<noteq> []"
proof -
  have "rems (Then Bol r) (k = 0, drop k s) \<noteq> [] \<longleftrightarrow> k = 0 \<and> rems r (True, s) \<noteq> []" for k
    by (cases "k = 0") simp_all
  then show ?thesis
    by (auto simp: py_search_def list_ex_iff)
qed

lemma rems_plain_pair:
  "plain r \<Longrightarrow> q \<in> set (rems r (b, s)) \<longleftrightarrow> (\<exists>w s'. q = (b \<and> w = [], s') \<and> s = w @ s' \<and> w \<in> lang r)"
  using rems_plain[of r "(b, s)"] by simp

lemma rems_plain_Eol:
  assumes "plain r"
  shows "rems (Then r Eol) (b, s) \<noteq> [] \<longleftrightarrow>
    (\<exists>w s'. s = w @ s' \<and> w \<in> lang r \<and> (s' = [] \<or> s' = [CHR 0x0A]))"
proof
  assume "rems (Then r Eol) (b, s) \<noteq> []"
  then obtain q where q: "q \<in> set (rems r (b, s))" "rems Eol q \<noteq> []"
    unfolding rems_Then_nonempty by blast
  from q(1) obtain w s' where w: "q = (b \<and> w = [], s')" "s = w @ s'" "w \<in> lang r"
    unfolding rems_plain_pair[OF assms] by blast
  from q(2) w(1) have "s' = [] \<or> s' = [CHR 0x0A]" by (simp split: if_splits)
  with w show "\<exists>w s'. s = w @ s' \<and> w \<in> lang r \<and> (s' = [] \<or> s' = [CHR 0x0A])" by blast
next
  assume "\<exists>w s'. s = w @ s' \<and> w \<in> lang r \<and> (s' = [] \<or> s' = [CHR 0x0A])"
  then obtain w s' where w: "s = w @ s'" "w \<in> lang r" "s' = [] \<or> s' = [CHR 0x0A]" by blast
  then have "(b \<and> w = [], s') \<in> set (rems r (b, s))"
    unfolding rems_plain_pair[OF assms] by blast
  moreover from w(3) have "rems Eol (b \<and> w = [], s') \<noteq> []" by auto
  ultimately show "rems (Then r Eol) (b, s) \<noteq> []"
    unfolding rems_Then_nonempty by blast
qed

lemma lang_Many_Atom: "lang (Many (Atom a)) = {w. list_all (atom_ok a) w}"
proof (intro set_eqI iffI)
  fix w assume "w \<in> lang (Many (Atom a))"
  then obtain ws where ws: "w = concat ws" "set ws \<subseteq> {[c] | c. atom_ok a c}" by auto
  have "\<forall>c \<in> set (concat ws). atom_ok a c"
  proof
    fix c assume "c \<in> set (concat ws)"
    then obtain x where "x \<in> set ws" "c \<in> set x" by auto
    with ws(2) show "atom_ok a c" by auto
  qed
  with ws(1) show "w \<in> {w. list_all (atom_ok a) w}"
    by (simp add: list_all_iff)
next
  fix w assume "w \<in> {w. list_all (atom_ok a) w}"
  then have all: "\<forall>c \<in> set w. atom_ok a c" by (simp add: list_all_iff)
  have "w = concat (map (\<lambda>c. [c]) w)" by (induction w) simp_all
  moreover from all have "set (map (\<lambda>c. [c]) w) \<subseteq> lang (Atom a)" by auto
  ultimately show "w \<in> lang (Many (Atom a))" unfolding lang.simps(5) by blast
qed

lemma lang_Some1_Atom: "lang (Some1 (Atom a)) = {w. w \<noteq> [] \<and> list_all (atom_ok a) w}"
proof (intro set_eqI iffI)
  fix w assume "w \<in> lang (Some1 (Atom a))"
  then obtain u v where "w = u @ v" "u \<in> lang (Atom a)" "v \<in> lang (Many (Atom a))"
    unfolding Some1_def lang.simps(3) by blast
  then show "w \<in> {w. w \<noteq> [] \<and> list_all (atom_ok a) w}"
    unfolding lang_Many_Atom by auto
next
  fix w assume "w \<in> {w. w \<noteq> [] \<and> list_all (atom_ok a) w}"
  then obtain c v where w: "w = [c] @ v" "atom_ok a c" "list_all (atom_ok a) v"
    by (cases w) auto
  then have "[c] \<in> lang (Atom a)" "v \<in> lang (Many (Atom a))"
    unfolding lang_Many_Atom by simp_all
  with w(1) show "w \<in> lang (Some1 (Atom a))"
    unfolding Some1_def lang.simps(3) by blast
qed

lemma lang_Maybe: "lang (Maybe r) = insert [] (lang r)"
  by (auto simp: Maybe_def)

lemma Str_Nil: "Str [] = Empty"
  by (simp add: Str_def)

lemma Str_Cons: "Str (c # s) = Then (Atom (Lit c)) (Str s)"
  by (simp add: Str_def)

lemma lang_Str: "lang (Str s) = {s}"
proof (induction s)
  case Nil
  show ?case by (simp add: Str_Nil)
next
  case (Cons c s)
  have "lang (Str (c # s)) = {u @ v | u v. u \<in> {[c]} \<and> v \<in> {s}}"
    unfolding Str_Cons lang.simps(3) Cons.IH by simp
  also have "\<dots> = {c # s}" by auto
  finally show ?case .
qed

lemma plain_Some1 [simp]: "plain (Some1 r) = plain r"
  by (simp add: Some1_def)

lemma plain_Maybe [simp]: "plain (Maybe r) = plain r"
  by (simp add: Maybe_def)

lemma plain_Str [simp]: "plain (Str s)"
  by (induction s) (simp_all add: Str_Nil Str_Cons)

subsection \<open>Stripping\<close>

lemma dropWhile_append_keep:
  "t \<noteq> [] \<Longrightarrow> \<not> P (hd t) \<Longrightarrow> dropWhile P (p @ t) = dropWhile P p @ t"
  by (induction p) (auto simp: neq_Nil_conv)

lemma py_strip_append:
  assumes "t \<noteq> []" "\<not> py_isspace (hd t)" "\<not> py_isspace (last t)"
  shows "py_strip (p @ t) = dropWhile py_isspace p @ t"
proof -
  have "rev t \<noteq> []" "\<not> py_isspace (hd (rev t))" using assms by (simp_all add: hd_rev)
  then have "dropWhile py_isspace (rev t @ rev (dropWhile py_isspace p)) = rev t @ rev (dropWhile py_isspace p)"
    by (cases "rev t") auto
  then show ?thesis
    using assms by (simp add: py_strip_def dropWhile_append_keep)
qed

lemma last_dropWhile: "dropWhile P ys \<noteq> [] \<Longrightarrow> last (dropWhile P ys) = last ys"
  by (induction ys) (auto split: if_splits)

lemma py_strip_ends:
  assumes "py_strip s \<noteq> []"
  shows "\<not> py_isspace (hd (py_strip s))" "\<not> py_isspace (last (py_strip s))"
proof -
  define a where "a = dropWhile py_isspace s"
  define b where "b = dropWhile py_isspace (rev a)"
  have st: "py_strip s = rev b" by (simp add: py_strip_def a_def b_def)
  from assms have b: "b \<noteq> []" by (simp add: st)
  then have hb: "\<not> py_isspace (hd b)" unfolding b_def by (rule hd_dropWhile)
  with b show "\<not> py_isspace (last (py_strip s))" by (simp add: st last_rev)
  have a: "a \<noteq> []" using b unfolding b_def by (cases a) simp_all
  then have ha: "\<not> py_isspace (hd a)" unfolding a_def by (rule hd_dropWhile)
  have "last b = last (rev a)" using b unfolding b_def by (rule last_dropWhile)
  with a b have "hd (rev b) = hd a" by (simp add: hd_rev last_rev)
  with ha show "\<not> py_isspace (hd (py_strip s))" by (simp add: st)
qed

lemma py_strip_Nil [simp]: "py_strip [] = []"
  by (simp add: py_strip_def)

lemma py_endswith_iff: "py_endswith s suffix \<longleftrightarrow> (\<exists>p. s = p @ suffix)"
proof
  assume "py_endswith s suffix"
  then have "drop (length s - length suffix) s = suffix" by (simp add: py_endswith_def)
  then have "s = take (length s - length suffix) s @ suffix"
    using append_take_drop_id[of "length s - length suffix" s] by simp
  then show "\<exists>p. s = p @ suffix" ..
next
  assume "\<exists>p. s = p @ suffix"
  then show "py_endswith s suffix" by (auto simp: py_endswith_def)
qed

subsection \<open>The shape of site names\<close>

lemma alnum_iff: "alnum c \<longleftrightarrow> in_range CHR ''a'' CHR ''z'' c \<or> in_range CHR ''0'' CHR ''9'' c"
  by (simp add: lower_alnum_def)

lemma name_char_iff: "name_char c \<longleftrightarrow> alnum c \<or> c = CHR ''-''"
  by (simp add: name_char_def alnum_iff)

lemma alnum_not_dash: "alnum c \<Longrightarrow> c \<noteq> CHR ''-''"
  by (auto simp: alnum_iff in_range_def)

lemma alnum_not_space: "alnum c \<Longrightarrow> \<not> py_isspace c"
  by (auto simp: alnum_iff in_range_def py_isspace_def)

lemma alnum_not_null: "alnum c \<Longrightarrow> c \<noteq> CHR 0x00"
  by (auto simp: alnum_iff in_range_def)

lemma adjacent_Cons_other: "x \<noteq> CHR ''-'' \<Longrightarrow> adjacent_dashes (x # ys) = adjacent_dashes ys"
  by (cases ys) simp_all

lemma adjacent_alnum_append:
  "list_all alnum a \<Longrightarrow> adjacent_dashes (a @ t) = adjacent_dashes t"
  by (induction a) (simp_all add: adjacent_Cons_other alnum_not_dash)

lemma take1_hd: "w \<noteq> [] \<Longrightarrow> take 1 w = [hd w]"
  by (cases w) simp_all

lemma take1_last: "w \<noteq> [] \<Longrightarrow> take 1 (rev w) = [last w]"
  using take1_hd[of "rev w"] by (simp add: hd_rev)

lemma lang_dash_group:
  "lang (Then (Atom (Lit CHR ''-'')) (Some1 (Atom lower_alnum)))
     = {CHR ''-'' # a | a. a \<noteq> [] \<and> list_all alnum a}"
  unfolding lang.simps(3) lang_Some1_Atom by auto

lemma dash_groups_Nil: "dash_groups []"
  by (simp add: dash_groups_def)

lemma dash_groups_step:
  assumes a: "a \<noteq> []" "list_all alnum a" and t: "dash_groups t"
  shows "dash_groups (CHR ''-'' # a @ t)"
proof -
  from a obtain x a' where xa: "a = x # a'" "alnum x" by (cases a) auto
  have nc: "list_all name_char (CHR ''-'' # a @ t)"
    using a(2) t by (auto simp: dash_groups_def list_all_iff name_char_iff)
  have "adjacent_dashes (CHR ''-'' # a @ t) = adjacent_dashes (a @ t)"
    using xa by (simp add: alnum_not_dash)
  also have "\<dots> = adjacent_dashes t" using a(2) by (rule adjacent_alnum_append)
  finally have adj: "\<not> adjacent_dashes (CHR ''-'' # a @ t)" using t by (simp add: dash_groups_def)
  have "last (CHR ''-'' # a @ t) \<noteq> CHR ''-''"
  proof (cases "t = []")
    case True
    from a have "alnum (last a)" by (simp add: list_all_iff)
    with True a(1) show ?thesis by (auto dest: alnum_not_dash)
  next
    case False
    with t show ?thesis by (simp add: dash_groups_def)
  qed
  with nc adj show ?thesis by (simp add: dash_groups_def)
qed

lemma dash_groups_concat:
  "set gs \<subseteq> {CHR ''-'' # a | a. a \<noteq> [] \<and> list_all alnum a} \<Longrightarrow> dash_groups (concat gs)"
proof (induction gs)
  case Nil
  show ?case by (simp add: dash_groups_Nil)
next
  case (Cons g gs)
  then obtain a where "g = CHR ''-'' # a" "a \<noteq> []" "list_all alnum a" by auto
  moreover from Cons have "dash_groups (concat gs)" by simp
  ultimately show ?case using dash_groups_step by simp
qed

lemma name_shape_intro:
  assumes u: "u \<noteq> []" "list_all alnum u" and t: "dash_groups t"
  shows "name_shape (u @ t)"
proof -
  from u have hd: "alnum (hd u)" and lst: "alnum (last u)" by (simp_all add: list_all_iff)
  have "list_all name_char (u @ t)"
    using u(2) t by (auto simp: dash_groups_def list_all_iff name_char_iff)
  moreover have "take 1 (u @ t) = [hd u]" using u(1) by (cases u) simp_all
  then have "take 1 (u @ t) \<noteq> ''-''"
    using hd by (auto dest: alnum_not_dash)
  moreover have "last (u @ t) \<noteq> CHR ''-''"
    using t lst u(1) by (cases "t = []") (auto simp: dash_groups_def dest: alnum_not_dash)
  then have "take 1 (rev (u @ t)) \<noteq> ''-''"
    using u(1) take1_last[of "u @ t"] by simp
  moreover have "\<not> adjacent_dashes (u @ t)"
    using t u(2) by (simp add: adjacent_alnum_append dash_groups_def)
  ultimately show ?thesis using u(1) by (simp add: name_shape_def)
qed

lemma name_char_cases: "name_char c \<Longrightarrow> \<not> alnum c \<Longrightarrow> c = CHR ''-''"
  by (simp add: name_char_iff)

lemma dash_groups_dropWhile:
  assumes r: "list_all name_char r" "\<not> adjacent_dashes r" "r \<noteq> []" "last r \<noteq> CHR ''-''"
  shows "dash_groups (dropWhile alnum r)"
proof -
  let ?a = "takeWhile alnum r" and ?t = "dropWhile alnum r"
  have split: "r = ?a @ ?t" by simp
  have nc: "list_all name_char ?t"
    using r(1) by (auto simp: list_all_iff dest: set_dropWhileD)
  have "list_all alnum ?a" by (auto simp: list_all_iff dest: set_takeWhileD)
  then have "adjacent_dashes (?a @ ?t) = adjacent_dashes ?t" by (rule adjacent_alnum_append)
  with r(2) have adj: "\<not> adjacent_dashes ?t" by simp
  have ends: "hd ?t = CHR ''-'' \<and> last ?t \<noteq> CHR ''-''" if ne: "?t \<noteq> []"
  proof -
    from ne have "\<not> alnum (hd ?t)" by (rule hd_dropWhile)
    moreover from ne nc have "name_char (hd ?t)" by (simp add: list_all_iff)
    ultimately have "hd ?t = CHR ''-''" by (simp add: name_char_cases)
    moreover from ne have "last ?t = last r" by (rule last_dropWhile)
    ultimately show ?thesis using r(4) by simp
  qed
  from nc adj ends show ?thesis by (auto simp: dash_groups_def)
qed

lemma dash_groups_lang:
  "dash_groups t \<Longrightarrow>
     t \<in> lang (Many (Then (Atom (Lit CHR ''-'')) (Some1 (Atom lower_alnum))))"
proof (induction t rule: length_induct)
  case (1 t)
  let ?G = "Then (Atom (Lit CHR ''-'')) (Some1 (Atom lower_alnum))"
  show ?case
  proof (cases t)
    case Nil
    have "[] = concat []" "set [] \<subseteq> lang ?G" by simp_all
    then have "[] \<in> lang (Many ?G)" unfolding lang.simps(5) by blast
    with Nil show ?thesis by simp
  next
    case (Cons c r)
    with 1(2) have c: "c = CHR ''-''" and nc: "list_all name_char r"
      and adj: "\<not> adjacent_dashes (c # r)"
      by (auto simp: dash_groups_def)
    from 1(2) Cons have rne: "r \<noteq> []" and lr: "last r \<noteq> CHR ''-''"
      by (auto simp: dash_groups_def split: if_splits)
    then obtain x r' where r: "r = x # r'" by (cases r) auto
    with adj c have x: "x \<noteq> CHR ''-''" and adjr: "\<not> adjacent_dashes r" by simp_all
    from nc r x have ax: "alnum x" by (auto simp: name_char_iff)
    let ?a = "takeWhile alnum r" and ?t = "dropWhile alnum r"
    from r ax have ane: "?a \<noteq> []" by simp
    have aal: "list_all alnum ?a" by (auto simp: list_all_iff dest: set_takeWhileD)
    have dg: "dash_groups ?t" using nc adjr rne lr by (rule dash_groups_dropWhile)
    have "length ?t < length t" using Cons by (simp add: length_dropWhile_le less_Suc_eq_le)
    with 1(1) dg have "?t \<in> lang (Many ?G)" by blast
    then obtain gs where gs: "?t = concat gs" "set gs \<subseteq> lang ?G"
      unfolding lang.simps(5) by blast
    from ane aal have "CHR ''-'' # ?a \<in> lang ?G" unfolding lang_dash_group by blast
    with gs have "set ((CHR ''-'' # ?a) # gs) \<subseteq> lang ?G" by simp
    moreover have "t = concat ((CHR ''-'' # ?a) # gs)"
      using Cons c gs(1)[symmetric] by simp
    ultimately show ?thesis unfolding lang.simps(5) by blast
  qed
qed



lemma lang_name_body: "w \<in> lang name_body \<longleftrightarrow> name_shape w"
proof
  assume "w \<in> lang name_body"
  then obtain u t where w: "w = u @ t" "u \<in> lang (Some1 (Atom lower_alnum))"
    "t \<in> lang (Many (Then (Atom (Lit CHR ''-'')) (Some1 (Atom lower_alnum))))"
    unfolding name_body_def lang.simps(3) by blast
  from w(3) obtain gs where "t = concat gs"
    "set gs \<subseteq> {CHR ''-'' # a | a. a \<noteq> [] \<and> list_all alnum a}"
    unfolding lang.simps(5)[of "Then (Atom (Lit CHR ''-'')) (Some1 (Atom lower_alnum))"]
      lang_dash_group by blast
  then have "dash_groups t" using dash_groups_concat by simp
  moreover from w(2) have "u \<noteq> []" "list_all alnum u" unfolding lang_Some1_Atom by simp_all
  ultimately show "name_shape w" unfolding w(1) using name_shape_intro by blast
next
  assume ns: "name_shape w"
  then have wne: "w \<noteq> []" and nc: "list_all name_char w" and h: "take 1 w \<noteq> ''-''"
    and l: "take 1 (rev w) \<noteq> ''-''" and adj: "\<not> adjacent_dashes w"
    by (simp_all add: name_shape_def)
  have hd: "hd w \<noteq> CHR ''-''" using h take1_hd[OF wne] by auto
  have lst: "last w \<noteq> CHR ''-''" using l take1_last[OF wne] by auto
  from wne nc have "name_char (hd w)" by (simp add: list_all_iff)
  with hd have ah: "alnum (hd w)" by (auto simp: name_char_iff)
  let ?u = "takeWhile alnum w" and ?t = "dropWhile alnum w"
  from wne ah have "?u \<noteq> []" by (cases w) simp_all
  moreover have "list_all alnum ?u" by (auto simp: list_all_iff dest: set_takeWhileD)
  ultimately have u: "?u \<in> lang (Some1 (Atom lower_alnum))" unfolding lang_Some1_Atom by simp
  have "dash_groups ?t" using nc adj wne lst by (rule dash_groups_dropWhile)
  then have "?t \<in> lang (Many (Then (Atom (Lit CHR ''-'')) (Some1 (Atom lower_alnum))))"
    by (rule dash_groups_lang)
  with u have "?u @ ?t \<in> lang name_body" unfolding name_body_def lang.simps(3) by blast
  then show "w \<in> lang name_body" by simp
qed

subsection \<open>Field and form plumbing\<close>

lemma CharField_clean_Inr_iff:
  "CharField_clean f value = Inr v \<longleftrightarrow>
     v = CharField_to_python f value \<and> (v = [] \<longrightarrow> \<not> required f) \<and>
     (v \<noteq> [] \<longrightarrow> (\<forall>check \<in> set (CharField_validators f). check v = []))"
  by (auto simp: CharField_clean_def Let_def)

lemma CharField_clean_Inl_nonempty: "CharField_clean f value = Inl es \<Longrightarrow> es \<noteq> []"
  by (auto simp: CharField_clean_def Let_def split: if_splits)

lemma to_python_strip: "strip f \<Longrightarrow> CharField_to_python f (Some raw) = py_strip raw"
  by (simp add: CharField_to_python_def)

lemma errors_foldl_add_error:
  "errors (foldl (\<lambda>s e. add_error n e s) st es) = errors st @ map (Pair n) es"
  by (induction es arbitrary: st) (simp_all add: add_error_def)

lemma cleaned_foldl_add_error:
  "es \<noteq> [] \<Longrightarrow> cleaned_data (foldl (\<lambda>s e. add_error n e s) st es) n = None"
proof (induction es arbitrary: st rule: rev_induct)
  case Nil
  then show ?case by simp
next
  case (snoc e es)
  show ?case by (simp add: add_error_def)
qed

lemma clean_field_Inr:
  "CharField_clean f (data n) = Inr v \<Longrightarrow>
     clean_field n f data st = st\<lparr>cleaned_data := (cleaned_data st)(n \<mapsto> v)\<rparr>"
  by (simp add: clean_field_def)

lemma clean_field_Inl:
  assumes "CharField_clean f (data n) = Inl es"
  shows "errors (clean_field n f data st) = errors st @ map (Pair n) es"
    and "cleaned_data (clean_field n f data st) n = None"
  using assms CharField_clean_Inl_nonempty[OF assms]
  by (simp_all add: clean_field_def errors_foldl_add_error cleaned_foldl_add_error)

lemma clean_field_valid:
  "is_valid (clean_field n f data new_form) \<longleftrightarrow> (\<exists>v. CharField_clean f (data n) = Inr v)"
proof (cases "CharField_clean f (data n)")
  case (Inl es)
  with clean_field_Inl(1)[where data = data and n = n and st = new_form, OF Inl]
    CharField_clean_Inl_nonempty[OF Inl]
  show ?thesis by (simp add: is_valid_def new_form_def)
next
  case (Inr v)
  then show ?thesis by (simp add: clean_field_Inr is_valid_def new_form_def)
qed

subsection \<open>The name pattern\<close>

lemma name_regex_body: "name_regex = Then Bol (Then name_body Eol)"
  by (simp add: name_regex_def name_body_def)

lemma plain_name_body: "plain name_body"
  by (simp add: name_body_def)

lemma py_search_name_regex:
  "py_search name_regex v \<longleftrightarrow>
     (\<exists>w s'. v = w @ s' \<and> name_shape w \<and> (s' = [] \<or> s' = [CHR 0x0A]))"
  unfolding name_regex_body py_search_Bol rems_plain_Eol[OF plain_name_body] lang_name_body ..

lemma newline_isspace: "py_isspace (CHR 0x0A)"
  by (simp add: py_isspace_def)

lemma py_search_name_stripped:
  assumes "v = [] \<or> \<not> py_isspace (last v)"
  shows "py_search name_regex v \<longleftrightarrow> name_shape v"
proof
  assume "py_search name_regex v"
  then obtain w s' where w: "v = w @ s'" "name_shape w" "s' = [] \<or> s' = [CHR 0x0A]"
    unfolding py_search_name_regex by blast
  from w(3) show "name_shape v"
  proof
    assume "s' = []"
    with w show ?thesis by simp
  next
    assume "s' = [CHR 0x0A]"
    with w(1) assms newline_isspace show ?thesis by simp
  qed
next
  assume "name_shape v"
  then show "py_search name_regex v" unfolding py_search_name_regex by auto
qed

lemma name_char_not_null: "name_char c \<Longrightarrow> c \<noteq> CHR 0x00"
  by (auto simp: name_char_def in_range_def)

lemma name_shape_no_null: "name_shape v \<Longrightarrow> CHR 0x00 \<notin> set v"
  by (auto simp: name_shape_def list_all_iff dest: name_char_not_null)

lemma py_strip_last: "py_strip s = [] \<or> \<not> py_isspace (last (py_strip s))"
  using py_strip_ends(2) by blast

lemma SiteNamesForm_name_clean:
  "CharField_clean SiteNamesForm_name (Some raw) = Inr v \<longleftrightarrow>
     v = py_strip raw \<and> 2 \<le> length v \<and> length v \<le> 32 \<and> name_shape v"
proof -
  have vals: "(\<forall>check \<in> set (CharField_validators SiteNamesForm_name). check u = []) \<longleftrightarrow>
      2 \<le> length u \<and> py_search name_regex u \<and> length u \<le> 32 \<and> CHR 0x00 \<notin> set u" for u
    by (auto simp: CharField_validators_def SiteNamesForm_name_def MinLengthValidator_def
        MaxLengthValidator_def RegexValidator_def ProhibitNullCharactersValidator_def)
  have tp: "CharField_to_python SiteNamesForm_name (Some raw) = py_strip raw"
    by (rule to_python_strip) (simp add: SiteNamesForm_name_def)
  have req: "required SiteNamesForm_name" by (simp add: SiteNamesForm_name_def)
  have srch: "py_search name_regex (py_strip raw) \<longleftrightarrow> name_shape (py_strip raw)"
    using py_strip_last by (rule py_search_name_stripped)
  show ?thesis
    unfolding CharField_clean_Inr_iff tp vals
    using req srch name_shape_no_null[of "py_strip raw"] by auto
qed

subsection \<open>Membership in a language\<close>

lemma in_lang_Then:
  "w \<in> lang (Then r1 r2) \<longleftrightarrow> (\<exists>u v. w = u @ v \<and> u \<in> lang r1 \<and> v \<in> lang r2)"
  by simp

lemma in_lang_Atom: "w \<in> lang (Atom a) \<longleftrightarrow> (\<exists>c. w = [c] \<and> atom_ok a c)"
  by auto

lemma in_lang_Maybe: "w \<in> lang (Maybe r) \<longleftrightarrow> w = [] \<or> w \<in> lang r"
  by (auto simp: lang_Maybe)

lemma takeWhile_stop:
  "list_all P ds \<Longrightarrow> rest = [] \<or> \<not> P (hd rest) \<Longrightarrow> takeWhile P (ds @ rest) = ds"
  by (cases rest) (auto simp: list_all_iff takeWhile_append)

subsection \<open>The domain pattern\<close>

lemma rems_NotAhead_Then:
  "rems (Then (NotAhead r) r2) p \<noteq> [] \<longleftrightarrow> rems r p = [] \<and> rems r2 p \<noteq> []"
  by simp

lemma domain_regex_parts:
  "domain_regex = Then Bol (Then (NotAhead (Then sites_body Eol)) (Then (Some1 (Atom domain_chars)) Eol))"
  by (simp add: domain_regex_def sites_lookahead_def sites_body_def)

lemma plain_sites_body: "plain sites_body"
  by (simp add: sites_body_def)

lemma py_search_domain_regex:
  "py_search domain_regex v \<longleftrightarrow>
     \<not> (\<exists>w s'. v = w @ s' \<and> w \<in> lang sites_body \<and> (s' = [] \<or> s' = [CHR 0x0A]))
     \<and> (\<exists>w s'. v = w @ s' \<and> w \<in> lang (Some1 (Atom domain_chars)) \<and> (s' = [] \<or> s' = [CHR 0x0A]))"
proof -
  have "plain (Some1 (Atom domain_chars))" by simp
  then show ?thesis
    unfolding domain_regex_parts py_search_Bol rems_NotAhead_Then
    using rems_plain_Eol[OF plain_sites_body, of True v]
      rems_plain_Eol[of "Some1 (Atom domain_chars)" True v]
    by blast
qed

lemma in_lang_sites_body:
  "w \<in> lang sites_body \<longleftrightarrow>
     w = ''sites.tjhsst.edu'' \<or>
     (\<exists>pre. CHR 0x0A \<notin> set pre \<and> w = pre @ ''.sites.tjhsst.edu'')"
proof -
  have dots: "u \<in> lang (Many (Atom Dot)) \<longleftrightarrow> CHR 0x0A \<notin> set u" for u
    unfolding lang_Many_Atom by (auto simp: list_all_iff)
  have "w \<in> lang sites_body \<longleftrightarrow>
      (\<exists>x. w = x @ ''sites.tjhsst.edu'' \<and>
         (x = [] \<or> (\<exists>pre. CHR 0x0A \<notin> set pre \<and> x = pre @ ''.'')))"
    unfolding sites_body_def in_lang_Then[of _ "Maybe _"] in_lang_Maybe
      in_lang_Then[of _ "Many _"] in_lang_Atom lang_Str dots
    by auto
  also have "\<dots> \<longleftrightarrow> w = ''sites.tjhsst.edu'' \<or>
     (\<exists>pre. CHR 0x0A \<notin> set pre \<and> w = pre @ ''.sites.tjhsst.edu'')"
    by auto
  finally show ?thesis .
qed

lemma domain_chars_not_newline: "atom_ok domain_chars c \<Longrightarrow> c \<noteq> CHR 0x0A"
  by (auto simp: domain_chars_def in_range_def)

lemma sites_domain_no_match:
  assumes "v = ''sites.tjhsst.edu'' \<or> (\<exists>pre. v = pre @ ''.sites.tjhsst.edu'')"
  shows "\<not> py_search domain_regex v"
proof
  assume "py_search domain_regex v"
  then have no: "\<not> (\<exists>w s'. v = w @ s' \<and> w \<in> lang sites_body \<and> (s' = [] \<or> s' = [CHR 0x0A]))"
    and "\<exists>w s'. v = w @ s' \<and> w \<in> lang (Some1 (Atom domain_chars)) \<and> (s' = [] \<or> s' = [CHR 0x0A])"
    unfolding py_search_domain_regex by blast+
  then obtain w s' where w: "v = w @ s'" "w \<in> lang (Some1 (Atom domain_chars))"
    "s' = [] \<or> s' = [CHR 0x0A]" by blast
  from assms have lv: "v \<noteq> [] \<and> last v = CHR ''u''" by auto
  have "s' = []"
  proof (rule ccontr)
    assume "s' \<noteq> []"
    with w(3) have "s' = [CHR 0x0A]" by simp
    with w(1) lv show False by simp
  qed
  with w have "list_all (atom_ok domain_chars) v" unfolding lang_Some1_Atom by simp
  then have nl: "CHR 0x0A \<notin> set v"
    by (auto simp: list_all_iff dest: domain_chars_not_newline)
  from assms have "v \<in> lang sites_body"
  proof
    assume "v = ''sites.tjhsst.edu''"
    then show ?thesis unfolding in_lang_sites_body by simp
  next
    assume "\<exists>pre. v = pre @ ''.sites.tjhsst.edu''"
    then obtain pre where pre: "v = pre @ ''.sites.tjhsst.edu''" by blast
    with nl have "CHR 0x0A \<notin> set pre" by simp
    with pre show ?thesis unfolding in_lang_sites_body by blast
  qed
  then have "v = v @ [] \<and> v \<in> lang sites_body \<and> ([] = [] \<or> [] = [CHR 0x0A])" by simp
  with no show False by blast
qed

subsection \<open>Splitting on whitespace\<close>

lemma is_token_space_Cons:
  assumes "py_isspace c"
  shows "is_token t (c # cs) \<longleftrightarrow> is_token t cs"
proof
  assume "is_token t (c # cs)"
  then obtain pre post where t: "t \<noteq> []" "list_all nsp t" and s: "c # cs = pre @ t @ post"
    and b: "pre = [] \<or> py_isspace (last pre)" "post = [] \<or> py_isspace (hd post)"
    unfolding is_token_def by blast
  have "pre \<noteq> []"
  proof
    assume "pre = []"
    with s t(1) have "hd t = c" by (cases t) auto
    with t assms show False by (cases t) auto
  qed
  then obtain pre' where pre: "pre = c # pre'" using s by (cases pre) auto
  with s have "cs = pre' @ t @ post" by simp
  moreover from b(1) pre have "pre' = [] \<or> py_isspace (last pre')" by (auto split: if_splits)
  ultimately show "is_token t cs" unfolding is_token_def using t b(2) by blast
next
  assume "is_token t cs"
  then obtain pre post where t: "t \<noteq> []" "list_all nsp t" and s: "cs = pre @ t @ post"
    and b: "pre = [] \<or> py_isspace (last pre)" "post = [] \<or> py_isspace (hd post)"
    unfolding is_token_def by blast
  from s have "c # cs = (c # pre) @ t @ post" by simp
  moreover from b(1) assms have "c # pre = [] \<or> py_isspace (last (c # pre))" by auto
  ultimately show "is_token t (c # cs)" unfolding is_token_def using t b(2) by blast
qed

lemma is_token_first:
  assumes "\<not> py_isspace c"
  shows "is_token (c # takeWhile nsp cs) (c # cs)"
proof -
  have "c # cs = [] @ (c # takeWhile nsp cs) @ dropWhile nsp cs" by simp
  moreover have "list_all nsp (c # takeWhile nsp cs)"
    using assms by (auto simp: list_all_iff dest: set_takeWhileD)
  moreover have "dropWhile nsp cs = [] \<or> py_isspace (hd (dropWhile nsp cs))"
    using hd_dropWhile[of nsp cs] by auto
  ultimately show ?thesis unfolding is_token_def by blast
qed

lemma is_token_later:
  assumes "\<not> py_isspace c" "is_token t (dropWhile nsp cs)"
  shows "is_token t (c # cs)"
proof -
  from assms(2) obtain pre post where t: "t \<noteq> []" "list_all nsp t"
    and s: "dropWhile nsp cs = pre @ t @ post"
    and b: "pre = [] \<or> py_isspace (last pre)" "post = [] \<or> py_isspace (hd post)"
    unfolding is_token_def by blast
  have pne: "pre \<noteq> []"
  proof
    assume "pre = []"
    with s t(1) have d: "dropWhile nsp cs \<noteq> []" "hd (dropWhile nsp cs) = hd t" by auto
    from hd_dropWhile[OF d(1)] d(2) have "py_isspace (hd t)" by simp
    with t show False by (cases t) auto
  qed
  have "c # cs = (c # takeWhile nsp cs @ pre) @ t @ post"
    using s takeWhile_dropWhile_id[of nsp cs] by (metis append_Cons append_assoc)
  moreover from pne b(1) have "py_isspace (last (c # takeWhile nsp cs @ pre))" by simp
  ultimately show ?thesis unfolding is_token_def using t b(2) by blast
qed

lemma is_token_nonspace_Cons_elim:
  assumes c: "\<not> py_isspace c" and tok: "is_token t (c # cs)"
  shows "t = c # takeWhile nsp cs \<or> is_token t (dropWhile nsp cs)"
proof -
  from tok obtain pre post where t: "t \<noteq> []" "list_all nsp t" and s: "c # cs = pre @ t @ post"
    and b: "pre = [] \<or> py_isspace (last pre)" "post = [] \<or> py_isspace (hd post)"
    unfolding is_token_def by blast
  show ?thesis
  proof (cases "pre = []")
    case True
    with s t(1) obtain t' where t': "t = c # t'" "cs = t' @ post" by (cases t) auto
    from t(2) t'(1) have "list_all nsp t'" by simp
    then have "takeWhile nsp (t' @ post) = t'" using b(2) by (intro takeWhile_stop) auto
    with t' show ?thesis by simp
  next
    case False
    with s obtain pre' where pre: "pre = c # pre'" "cs = pre' @ t @ post" by (cases pre) auto
    from False b(1) have lp: "py_isspace (last pre)" by simp
    with pre(1) c have pne: "pre' \<noteq> []" by (cases pre') auto
    with pre(1) lp have lp': "py_isspace (last pre')" by simp
    from pne have "last pre' \<in> set pre'" by simp
    with lp' have ex: "\<exists>x \<in> set pre'. \<not> nsp x" by blast
    then obtain x where x: "x \<in> set pre'" "\<not> nsp x" by blast
    have d: "dropWhile nsp cs = dropWhile nsp pre' @ t @ post"
      unfolding pre(2) using x by (rule dropWhile_append1)
    have dne: "dropWhile nsp pre' \<noteq> []" using x by (simp add: dropWhile_eq_Nil_conv) blast
    then have "last (dropWhile nsp pre') = last pre'" by (rule last_dropWhile)
    with lp' dne d t b(2) show ?thesis unfolding is_token_def by metis
  qed
qed

lemma is_token_Nil: "\<not> is_token t []"
  by (simp add: is_token_def)

lemma py_split_tokens: "t \<in> set (py_split s) \<longleftrightarrow> is_token t s"
proof (induction s rule: py_split.induct)
  case 1
  show ?case by (simp add: is_token_Nil)
next
  case (2 c cs)
  show ?case
  proof (cases "py_isspace c")
    case True
    with 2(1) show ?thesis by (simp add: is_token_space_Cons)
  next
    case False
    with 2(2) have "t \<in> set (py_split (c # cs)) \<longleftrightarrow>
        t = c # takeWhile nsp cs \<or> is_token t (dropWhile nsp cs)" by simp
    also have "\<dots> \<longleftrightarrow> is_token t (c # cs)"
      using False is_token_first is_token_later is_token_nonspace_Cons_elim by blast
    finally show ?thesis .
  qed
qed

lemma py_split_spaces: "list_all py_isspace ws \<Longrightarrow> py_split ws = []"
  by (induction ws) simp_all

lemma takeWhile_nsp_spaces: "list_all py_isspace ws \<Longrightarrow> takeWhile nsp ws = []"
  by (cases ws) simp_all

lemma dropWhile_nsp_spaces: "list_all py_isspace ws \<Longrightarrow> dropWhile nsp ws = ws"
  by (cases ws) simp_all

lemma takeWhile_nsp_trailing:
  "list_all py_isspace ws \<Longrightarrow> takeWhile nsp (cs @ ws) = takeWhile nsp cs"
  by (induction cs) (simp_all add: takeWhile_nsp_spaces)

lemma dropWhile_nsp_trailing:
  "list_all py_isspace ws \<Longrightarrow> dropWhile nsp (cs @ ws) = dropWhile nsp cs @ ws"
  by (induction cs) (simp_all add: dropWhile_nsp_spaces)

lemma py_split_trailing:
  "list_all py_isspace ws \<Longrightarrow> py_split (s @ ws) = py_split s"
proof (induction s rule: py_split.induct)
  case 1
  then show ?case by (simp add: py_split_spaces)
next
  case (2 c cs)
  then show ?case
    by (simp add: takeWhile_nsp_trailing dropWhile_nsp_trailing)
qed

lemma py_split_leading: "py_split (dropWhile py_isspace s) = py_split s"
  by (induction s) simp_all

lemma py_split_strip: "py_split (py_strip s) = py_split s"
proof -
  define a where "a = dropWhile py_isspace s"
  have "a = rev (dropWhile py_isspace (rev a)) @ rev (takeWhile py_isspace (rev a))"
    by (metis rev_append rev_rev_ident takeWhile_dropWhile_id)
  moreover have "list_all py_isspace (rev (takeWhile py_isspace (rev a)))"
    by (auto simp: list_all_iff dest: set_takeWhileD)
  ultimately have "py_split a = py_split (rev (dropWhile py_isspace (rev a)))"
    using py_split_trailing by metis
  then show ?thesis unfolding a_def by (simp add: py_strip_def py_split_leading)
qed

lemma py_split_strip_tokens: "set (py_split (py_strip s)) = {t. is_token t s}"
  unfolding py_split_strip using py_split_tokens by blast

lemma no_token_in_spaces: "list_all py_isspace s \<Longrightarrow> \<not> is_token t s"
  using py_split_tokens[of t s] by (simp add: py_split_spaces)

subsection \<open>Patterns on code points\<close>

declare cp_rems.simps(6) [simp del]

lemma cp_rems_plain:
  "cp_plain r \<Longrightarrow> set (cp_rems r p) = {(fst p \<and> w = [], s') | w s'. snd p = w @ s' \<and> w \<in> cp_lang r}"
proof (induction r p rule: cp_rems.induct)
  case (1 a b)
  then show ?case by auto
next
  case (2 a b c cs)
  then show ?case by (auto simp: Cons_eq_append_conv)
next
  case (3 p)
  then show ?case by (cases p) auto
next
  case (4 r1 r2 p)
  then have p1: "cp_plain r1" and p2: "cp_plain r2" by simp_all
  note ih1 = 4(1)[OF p1]
  note ih2 = 4(2)[OF _ p2]
  show ?case
  proof (intro set_eqI iffI)
    fix x assume "x \<in> set (cp_rems (CThen r1 r2) p)"
    then obtain q where q: "q \<in> set (cp_rems r1 p)" and x: "x \<in> set (cp_rems r2 q)" by auto
    from q ih1 obtain u s1 where u: "q = (fst p \<and> u = [], s1)" "snd p = u @ s1" "u \<in> cp_lang r1"
      by auto
    from x ih2[OF q] obtain v s2 where v: "x = (fst q \<and> v = [], s2)" "snd q = v @ s2" "v \<in> cp_lang r2"
      by auto
    from u v have "x = (fst p \<and> u @ v = [], s2)" "snd p = (u @ v) @ s2" "u @ v \<in> cp_lang (CThen r1 r2)"
      by auto
    then show "x \<in> {(fst p \<and> w = [], s') | w s'. snd p = w @ s' \<and> w \<in> cp_lang (CThen r1 r2)}"
      by blast
  next
    fix x assume "x \<in> {(fst p \<and> w = [], s') | w s'. snd p = w @ s' \<and> w \<in> cp_lang (CThen r1 r2)}"
    then obtain u v s' where x: "x = (fst p \<and> u @ v = [], s')" "snd p = (u @ v) @ s'"
      "u \<in> cp_lang r1" "v \<in> cp_lang r2" by auto
    let ?q = "(fst p \<and> u = [], v @ s')"
    from x ih1 have q: "?q \<in> set (cp_rems r1 p)" by auto
    from ih2[OF q] x have "x \<in> set (cp_rems r2 ?q)" by auto
    with q show "x \<in> set (cp_rems (CThen r1 r2) p)" by auto
  qed
next
  case (5 r1 r2 p)
  then show ?case by auto
next
  case (6 r p)
  then have pr: "cp_plain r" by simp
  note ih1 = 6(1)[OF pr]
  have ih2: "\<And>q. q \<in> set (cp_rems r p) \<Longrightarrow> length (snd q) < length (snd p) \<Longrightarrow>
      set (cp_rems (CMany r) q) = {(fst q \<and> w = [], s') | w s'. snd q = w @ s' \<and> w \<in> cp_lang (CMany r)}"
    using 6(2) 6(3) by simp
  show ?case
  proof (intro set_eqI iffI)
    fix x assume "x \<in> set (cp_rems (CMany r) p)"
    then consider "x = p" | q where "q \<in> set (cp_rems r p)" "length (snd q) < length (snd p)"
      "x \<in> set (cp_rems (CMany r) q)"
      by (auto simp: cp_rems.simps(6)[of r p])
    then show "x \<in> {(fst p \<and> w = [], s') | w s'. snd p = w @ s' \<and> w \<in> cp_lang (CMany r)}"
    proof cases
      case 1
      have "[] \<in> cp_lang (CMany r)" by (auto intro: exI[of _ "[]"])
      with 1 show ?thesis by (cases p) auto
    next
      case 2
      from 2(1) ih1 obtain u s1 where u: "q = (fst p \<and> u = [], s1)" "snd p = u @ s1" "u \<in> cp_lang r"
        by auto
      with 2(2) have une: "u \<noteq> []" by auto
      from 2(3) ih2[OF 2(1) 2(2)] obtain v s2 where
        v: "x = (fst q \<and> v = [], s2)" "snd q = v @ s2" "v \<in> cp_lang (CMany r)" by auto
      from v(3) obtain ws where ws: "v = concat ws" "set ws \<subseteq> cp_lang r" by auto
      with u have "u @ v = concat (u # ws)" "set (u # ws) \<subseteq> cp_lang r" by auto
      then have "u @ v \<in> cp_lang (CMany r)" by (metis (mono_tags, lifting) cp_lang.simps(5) mem_Collect_eq)
      moreover from u v une have "x = (fst p \<and> u @ v = [], s2)" "snd p = (u @ v) @ s2" by auto
      ultimately show ?thesis by blast
    qed
  next
    fix x assume "x \<in> {(fst p \<and> w = [], s') | w s'. snd p = w @ s' \<and> w \<in> cp_lang (CMany r)}"
    then obtain ws s' where x: "x = (fst p \<and> concat ws = [], s')" "snd p = concat ws @ s'"
      "set ws \<subseteq> cp_lang r" by auto
    show "x \<in> set (cp_rems (CMany r) p)"
    proof (cases "concat ws = []")
      case True
      with x have "x = p" by (cases p) auto
      then show ?thesis by (simp add: cp_rems.simps(6)[of r p])
    next
      case False
      from concat_nonempty_split[OF x(3) False] obtain u vs where
        u: "u \<noteq> []" "u \<in> cp_lang r" "set vs \<subseteq> cp_lang r" "concat ws = u @ concat vs" by blast
      let ?q = "(False, concat vs @ s')"
      from u x ih1 have q: "?q \<in> set (cp_rems r p)" by auto
      from u x have len: "length (snd ?q) < length (snd p)" by auto
      have "concat vs \<in> cp_lang (CMany r)" using u(3) by auto
      with ih2[OF q len] have "(False, s') \<in> set (cp_rems (CMany r) ?q)" by auto
      moreover from False x have "x = (False, s')" by simp
      moreover from q len have "?q \<in> set (filter (\<lambda>q. length (snd q) < length (snd p)) (cp_rems r p))"
        by simp
      ultimately have "x \<in> set (concat (map (cp_rems (CMany r))
          (filter (\<lambda>q. length (snd q) < length (snd p)) (cp_rems r p))))"
        unfolding set_concat set_map by blast
      then show ?thesis by (simp add: cp_rems.simps(6)[of r p])
    qed
  qed
next
  case (7 b s)
  then show ?case by simp
next
  case (8 b s)
  then show ?case by simp
qed

lemma cp_rems_Then_nonempty:
  "cp_rems (CThen r1 r2) p \<noteq> [] \<longleftrightarrow> (\<exists>q \<in> set (cp_rems r1 p). cp_rems r2 q \<noteq> [])"
  by simp

lemma cp_search_Bol: "cp_search (CThen CBol r) s \<longleftrightarrow> cp_rems r (True, s) \<noteq> []"
proof -
  have "cp_rems (CThen CBol r) (k = 0, drop k s) \<noteq> [] \<longleftrightarrow> k = 0 \<and> cp_rems r (True, s) \<noteq> []" for k
    by (cases "k = 0") simp_all
  then show ?thesis
    by (auto simp: cp_search_def list_ex_iff)
qed

lemma cp_rems_plain_pair:
  "cp_plain r \<Longrightarrow> q \<in> set (cp_rems r (b, s)) \<longleftrightarrow> (\<exists>w s'. q = (b \<and> w = [], s') \<and> s = w @ s' \<and> w \<in> cp_lang r)"
  using cp_rems_plain[of r "(b, s)"] by simp

lemma cp_rems_plain_Eol:
  assumes "cp_plain r"
  shows "cp_rems (CThen r CEol) (b, s) \<noteq> [] \<longleftrightarrow>
    (\<exists>w s'. s = w @ s' \<and> w \<in> cp_lang r \<and> (s' = [] \<or> s' = [0x0A]))"
proof
  assume "cp_rems (CThen r CEol) (b, s) \<noteq> []"
  then obtain q where q: "q \<in> set (cp_rems r (b, s))" "cp_rems CEol q \<noteq> []"
    unfolding cp_rems_Then_nonempty by blast
  from q(1) obtain w s' where w: "q = (b \<and> w = [], s')" "s = w @ s'" "w \<in> cp_lang r"
    unfolding cp_rems_plain_pair[OF assms] by blast
  from q(2) w(1) have "s' = [] \<or> s' = [0x0A]" by (simp split: if_splits)
  with w show "\<exists>w s'. s = w @ s' \<and> w \<in> cp_lang r \<and> (s' = [] \<or> s' = [0x0A])" by blast
next
  assume "\<exists>w s'. s = w @ s' \<and> w \<in> cp_lang r \<and> (s' = [] \<or> s' = [0x0A])"
  then obtain w s' where w: "s = w @ s'" "w \<in> cp_lang r" "s' = [] \<or> s' = [0x0A]" by blast
  then have "(b \<and> w = [], s') \<in> set (cp_rems r (b, s))"
    unfolding cp_rems_plain_pair[OF assms] by blast
  moreover from w(3) have "cp_rems CEol (b \<and> w = [], s') \<noteq> []" by auto
  ultimately show "cp_rems (CThen r CEol) (b, s) \<noteq> []"
    unfolding cp_rems_Then_nonempty by blast
qed

lemma cp_lang_Many_Atom: "cp_lang (CMany (CAtom a)) = {w. list_all (a) w}"
proof (intro set_eqI iffI)
  fix w assume "w \<in> cp_lang (CMany (CAtom a))"
  then obtain ws where ws: "w = concat ws" "set ws \<subseteq> {[c] | c. a c}" by auto
  have "\<forall>c \<in> set (concat ws). a c"
  proof
    fix c assume "c \<in> set (concat ws)"
    then obtain x where "x \<in> set ws" "c \<in> set x" by auto
    with ws(2) show "a c" by auto
  qed
  with ws(1) show "w \<in> {w. list_all (a) w}"
    by (simp add: list_all_iff)
next
  fix w assume "w \<in> {w. list_all (a) w}"
  then have all: "\<forall>c \<in> set w. a c" by (simp add: list_all_iff)
  have "w = concat (map (\<lambda>c. [c]) w)" by (induction w) simp_all
  moreover from all have "set (map (\<lambda>c. [c]) w) \<subseteq> cp_lang (CAtom a)" by auto
  ultimately show "w \<in> cp_lang (CMany (CAtom a))" unfolding cp_lang.simps(5) by blast
qed

lemma cp_lang_Some1_Atom: "cp_lang (CSome1 (CAtom a)) = {w. w \<noteq> [] \<and> list_all (a) w}"
proof (intro set_eqI iffI)
  fix w assume "w \<in> cp_lang (CSome1 (CAtom a))"
  then obtain u v where "w = u @ v" "u \<in> cp_lang (CAtom a)" "v \<in> cp_lang (CMany (CAtom a))"
    unfolding CSome1_def cp_lang.simps(3) by blast
  then show "w \<in> {w. w \<noteq> [] \<and> list_all (a) w}"
    unfolding cp_lang_Many_Atom by auto
next
  fix w assume "w \<in> {w. w \<noteq> [] \<and> list_all (a) w}"
  then obtain c v where w: "w = [c] @ v" "a c" "list_all (a) v"
    by (cases w) auto
  then have "[c] \<in> cp_lang (CAtom a)" "v \<in> cp_lang (CMany (CAtom a))"
    unfolding cp_lang_Many_Atom by simp_all
  with w(1) show "w \<in> cp_lang (CSome1 (CAtom a))"
    unfolding CSome1_def cp_lang.simps(3) by blast
qed

lemma cp_lang_Maybe: "cp_lang (CMaybe r) = insert [] (cp_lang r)"
  by (auto simp: CMaybe_def)

lemma cp_plain_Some1 [simp]: "cp_plain (CSome1 r) = cp_plain r"
  by (simp add: CSome1_def)

lemma cp_plain_Maybe [simp]: "cp_plain (CMaybe r) = cp_plain r"
  by (simp add: CMaybe_def)

lemma cp_strip_ends:
  assumes "cp_strip s \<noteq> []"
  shows "\<not> cp_isspace (hd (cp_strip s))" "\<not> cp_isspace (last (cp_strip s))"
proof -
  define a where "a = dropWhile cp_isspace s"
  define b where "b = dropWhile cp_isspace (rev a)"
  have st: "cp_strip s = rev b" by (simp add: cp_strip_def a_def b_def)
  from assms have b: "b \<noteq> []" by (simp add: st)
  then have hb: "\<not> cp_isspace (hd b)" unfolding b_def by (rule hd_dropWhile)
  with b show "\<not> cp_isspace (last (cp_strip s))" by (simp add: st last_rev)
  have a: "a \<noteq> []" using b unfolding b_def by (cases a) simp_all
  then have ha: "\<not> cp_isspace (hd a)" unfolding a_def by (rule hd_dropWhile)
  have "last b = last (rev a)" using b unfolding b_def by (rule last_dropWhile)
  with a b have "hd (rev b) = hd a" by (simp add: hd_rev last_rev)
  with ha show "\<not> cp_isspace (hd (cp_strip s))" by (simp add: st)
qed

subsection \<open>The shape of memory limits\<close>

lemma UCharField_clean_Inr_iff:
  "UCharField_clean f value = Inr v \<longleftrightarrow>
     v = UCharField_to_python f value \<and> (v = [] \<longrightarrow> \<not> u_required f) \<and>
     (v \<noteq> [] \<longrightarrow> (\<forall>check \<in> set (UCharField_validators f). check v = []))"
  by (auto simp: UCharField_clean_def Let_def)

lemma cp_strip_Nil: "cp_strip [] = []"
  by (simp add: cp_strip_def)

lemma u_to_python_strip: "u_strip f \<Longrightarrow> UCharField_to_python f (Some raw) = cp_strip raw"
  by (simp add: UCharField_to_python_def cp_strip_Nil)

lemma cp_strip_last: "cp_strip s = [] \<or> \<not> cp_isspace (last (cp_strip s))"
  using cp_strip_ends(2) by blast

lemma cp_newline_isspace: "cp_isspace 0x0A"
  by (simp add: cp_isspace_def)

lemma cp_search_anchored:
  assumes "cp_plain r" "v = [] \<or> \<not> cp_isspace (last v)"
  shows "cp_search (CThen CBol (CThen r CEol)) v \<longleftrightarrow> v \<in> cp_lang r"
proof
  assume "cp_search (CThen CBol (CThen r CEol)) v"
  then obtain w s' where w: "v = w @ s'" "w \<in> cp_lang r" "s' = [] \<or> s' = [0x0A]"
    unfolding cp_search_Bol cp_rems_plain_Eol[OF assms(1)] by blast
  from w(3) show "v \<in> cp_lang r"
  proof
    assume "s' = []"
    with w show ?thesis by simp
  next
    assume "s' = [0x0A]"
    with w(1) assms(2) cp_newline_isspace show ?thesis by simp
  qed
next
  assume "v \<in> cp_lang r"
  then have "\<exists>w s'. v = w @ s' \<and> w \<in> cp_lang r \<and> (s' = [] \<or> s' = [0x0A])" by auto
  then show "cp_search (CThen CBol (CThen r CEol)) v"
    unfolding cp_search_Bol cp_rems_plain_Eol[OF assms(1)] .
qed

lemma in_cp_lang_Then:
  "w \<in> cp_lang (CThen r1 r2) \<longleftrightarrow> (\<exists>u v. w = u @ v \<and> u \<in> cp_lang r1 \<and> v \<in> cp_lang r2)"
  by simp

lemma in_cp_lang_Atom: "w \<in> cp_lang (CAtom a) \<longleftrightarrow> (\<exists>c. w = [c] \<and> a c)"
  by auto

lemma in_cp_lang_Maybe: "w \<in> cp_lang (CMaybe r) \<longleftrightarrow> w = [] \<or> w \<in> cp_lang r"
  by (auto simp: cp_lang_Maybe)

lemma cp_one_of_KMG: "cp_one_of ''KMG'' c \<longleftrightarrow> c = 0x4B \<or> c = 0x4D \<or> c = 0x47"
  by (auto simp: cp_one_of_def ustr_def)

lemma cp_lit_i: "cp_lit CHR ''i'' c \<longleftrightarrow> c = 0x69"
  by (simp add: cp_lit_def)

lemma cp_lit_B: "cp_lit CHR ''B'' c \<longleftrightarrow> c = 0x42"
  by (simp add: cp_lit_def)

lemma mem_suffixes_eq:
  "mem_suffixes = [[0x4B, 0x69, 0x42], [0x4D, 0x69, 0x42], [0x47, 0x69, 0x42],
                   [0x4B, 0x42], [0x4D, 0x42], [0x47, 0x42]]"
  by (simp add: mem_suffixes_def ustr_def)

lemma in_cp_lang_mem_suffix:
  "w \<in> cp_lang mem_suffix \<longleftrightarrow>
     (\<exists>k u. w = k # u @ [0x42] \<and> (k = 0x4B \<or> k = 0x4D \<or> k = 0x47) \<and> (u = [] \<or> u = [0x69]))"
proof
  assume "w \<in> cp_lang mem_suffix"
  then obtain x v where w: "w = x @ v" and x: "x \<in> cp_lang (CAtom (cp_one_of ''KMG''))"
    and v: "v \<in> cp_lang (CThen (CMaybe (CAtom (cp_lit CHR ''i''))) (CAtom (cp_lit CHR ''B'')))"
    unfolding mem_suffix_def in_cp_lang_Then[of _ "CAtom _"] by blast
  from x obtain k where k: "x = [k]" "k = 0x4B \<or> k = 0x4D \<or> k = 0x47"
    unfolding in_cp_lang_Atom cp_one_of_KMG by blast
  from v obtain u b where ub: "v = u @ b" and u: "u \<in> cp_lang (CMaybe (CAtom (cp_lit CHR ''i'')))"
    and b: "b \<in> cp_lang (CAtom (cp_lit CHR ''B''))"
    unfolding in_cp_lang_Then[of _ "CMaybe _"] by blast
  from u have u': "u = [] \<or> u = [0x69]"
    unfolding in_cp_lang_Maybe in_cp_lang_Atom cp_lit_i by blast
  from b have b': "b = [0x42]" unfolding in_cp_lang_Atom cp_lit_B by blast
  from w k(1) ub b' have "w = k # u @ [0x42]" by simp
  with k(2) u' show "\<exists>k u. w = k # u @ [0x42] \<and> (k = 0x4B \<or> k = 0x4D \<or> k = 0x47)
      \<and> (u = [] \<or> u = [0x69])" by blast
next
  assume "\<exists>k u. w = k # u @ [0x42] \<and> (k = 0x4B \<or> k = 0x4D \<or> k = 0x47) \<and> (u = [] \<or> u = [0x69])"
  then obtain k u where w: "w = [k] @ (u @ [0x42])" and k: "k = 0x4B \<or> k = 0x4D \<or> k = 0x47"
    and u: "u = [] \<or> u = [0x69]" by auto
  from k have "[k] \<in> cp_lang (CAtom (cp_one_of ''KMG''))"
    unfolding in_cp_lang_Atom cp_one_of_KMG by blast
  moreover from u have "u \<in> cp_lang (CMaybe (CAtom (cp_lit CHR ''i'')))"
    unfolding in_cp_lang_Maybe in_cp_lang_Atom cp_lit_i by blast
  moreover have "[0x42] \<in> cp_lang (CAtom (cp_lit CHR ''B''))"
    unfolding in_cp_lang_Atom cp_lit_B by blast
  ultimately show "w \<in> cp_lang mem_suffix"
    unfolding w mem_suffix_def in_cp_lang_Then[of _ "CAtom (cp_one_of _)"]
      in_cp_lang_Then[of _ "CMaybe _"] by blast
qed

lemma cp_lang_mem_suffix: "cp_lang mem_suffix = set mem_suffixes"
proof (intro set_eqI iffI)
  fix w assume "w \<in> cp_lang mem_suffix"
  then obtain k u where "w = k # u @ [0x42]" "k = 0x4B \<or> k = 0x4D \<or> k = 0x47"
    "u = [] \<or> u = [0x69]"
    unfolding in_cp_lang_mem_suffix by blast
  then show "w \<in> set mem_suffixes" unfolding mem_suffixes_eq by auto
next
  fix w assume "w \<in> set mem_suffixes"
  then consider "w = 0x4B # [0x69] @ [0x42]" | "w = 0x4D # [0x69] @ [0x42]"
    | "w = 0x47 # [0x69] @ [0x42]" | "w = 0x4B # [] @ [0x42]" | "w = 0x4D # [] @ [0x42]"
    | "w = 0x47 # [] @ [0x42]"
    unfolding mem_suffixes_eq by auto
  then show "w \<in> cp_lang mem_suffix"
    unfolding in_cp_lang_mem_suffix by cases blast+
qed

lemma in_cp_lang_mem_tail:
  "t \<in> cp_lang (CMaybe (CThen (CMany (CAtom cp_isspace)) mem_suffix)) \<longleftrightarrow>
     t = [] \<or> (\<exists>ws sfx. list_all cp_isspace ws \<and> sfx \<in> set mem_suffixes \<and> t = ws @ sfx)"
proof -
  have "u \<in> cp_lang (CMany (CAtom cp_isspace)) \<longleftrightarrow> list_all cp_isspace u" for u
    unfolding cp_lang_Many_Atom by simp
  then show ?thesis
    unfolding in_cp_lang_Maybe in_cp_lang_Then cp_lang_mem_suffix by blast
qed

lemma in_cp_lang_digits:
  "ds \<in> cp_lang (CSome1 (CAtom (py_isdecimal nd))) \<longleftrightarrow> ds \<noteq> [] \<and> list_all (py_isdecimal nd) ds"
  unfolding cp_lang_Some1_Atom by simp

lemma cp_lang_mem_body: "w \<in> cp_lang (mem_body nd) \<longleftrightarrow> mem_shape nd w"
proof -
  have "w \<in> cp_lang (mem_body nd) \<longleftrightarrow>
      w = [] \<or> (\<exists>ds t. w = ds @ t \<and> (ds \<noteq> [] \<and> list_all (py_isdecimal nd) ds) \<and>
        (t = [] \<or> (\<exists>ws sfx. list_all cp_isspace ws \<and> sfx \<in> set mem_suffixes \<and> t = ws @ sfx)))"
    unfolding mem_body_def in_cp_lang_Maybe[of _ "CThen (CSome1 _) _"] in_cp_lang_Then[of _ "CSome1 _"]
      in_cp_lang_digits in_cp_lang_mem_tail ..
  also have "\<dots> \<longleftrightarrow> mem_shape nd w"
    unfolding mem_shape_def by (metis append_Nil2)
  finally show ?thesis .
qed

lemma mem_regex_body: "mem_regex nd = CThen CBol (CThen (mem_body nd) CEol)"
  by (simp add: mem_regex_def mem_body_def mem_suffix_def)

lemma cp_plain_mem_body: "cp_plain (mem_body nd)"
  by (simp add: mem_body_def mem_suffix_def)

lemma cp_search_mem_stripped:
  "v = [] \<or> \<not> cp_isspace (last v) \<Longrightarrow> cp_search (mem_regex nd) v \<longleftrightarrow> mem_shape nd v"
  unfolding mem_regex_body using cp_search_anchored[OF cp_plain_mem_body] cp_lang_mem_body by simp

lemma py_isdecimal_not_null: "\<not> py_isdecimal nd 0"
  by (simp add: py_isdecimal_def)

lemma mem_shape_no_null:
  assumes "mem_shape nd v"
  shows "0 \<notin> set v"
proof
  assume z: "0 \<in> set v"
  then have "v \<noteq> []" by auto
  with assms obtain ds ws sfx where ds: "list_all (py_isdecimal nd) ds"
    and v: "v = ds \<or> (list_all cp_isspace ws \<and> sfx \<in> set mem_suffixes \<and> v = ds @ ws @ sfx)"
    unfolding mem_shape_def by blast
  have nd: "0 \<notin> set ds" using ds py_isdecimal_not_null by (auto simp: list_all_iff)
  from v show False
  proof
    assume "v = ds"
    with z nd show False by simp
  next
    assume a: "list_all cp_isspace ws \<and> sfx \<in> set mem_suffixes \<and> v = ds @ ws @ sfx"
    then have "0 \<notin> set ws" by (auto simp: list_all_iff cp_isspace_def)
    moreover from a have "0 \<notin> set sfx" unfolding mem_suffixes_eq by auto
    ultimately show False using a z nd by simp
  qed
qed

lemma mem_limit_clean:
  "UCharField_clean (SiteResourceLimitsForm_mem_limit nd) (Some raw) = Inr v \<longleftrightarrow>
     v = cp_strip raw \<and> length v \<le> 10 \<and> mem_shape nd v"
proof -
  have vals: "(\<forall>check \<in> set (UCharField_validators (SiteResourceLimitsForm_mem_limit nd)). check u = [])
      \<longleftrightarrow> cp_search (mem_regex nd) u \<and> length u \<le> 10 \<and> 0 \<notin> set u" for u
    by (auto simp: UCharField_validators_def SiteResourceLimitsForm_mem_limit_def
        UMaxLengthValidator_def URegexValidator_def UProhibitNullCharactersValidator_def)
  have tp: "UCharField_to_python (SiteResourceLimitsForm_mem_limit nd) (Some raw) = cp_strip raw"
    by (rule u_to_python_strip) (simp add: SiteResourceLimitsForm_mem_limit_def)
  have req: "\<not> u_required (SiteResourceLimitsForm_mem_limit nd)"
    by (simp add: SiteResourceLimitsForm_mem_limit_def)
  have srch: "cp_search (mem_regex nd) (cp_strip raw) \<longleftrightarrow> mem_shape nd (cp_strip raw)"
    using cp_strip_last by (rule cp_search_mem_stripped)
  have empty: "mem_shape nd []" by (simp add: mem_shape_def)
  show ?thesis
    unfolding UCharField_clean_Inr_iff tp vals
    using req srch mem_shape_no_null[of nd "cp_strip raw"] empty by auto
qed

subsection \<open>The site name form\<close>

lemma SiteNamesForm_valid_iff:
  "is_valid (SiteNamesForm_full_clean [''name'' \<mapsto> raw]) \<longleftrightarrow>
     2 \<le> length (py_strip raw) \<and> length (py_strip raw) \<le> 32 \<and> name_shape (py_strip raw)"
  unfolding SiteNamesForm_full_clean_def clean_field_valid
  by (simp add: SiteNamesForm_name_clean)

lemma SiteNamesForm_cleaned:
  assumes "is_valid (SiteNamesForm_full_clean [''name'' \<mapsto> raw])"
  shows "cleaned_data (SiteNamesForm_full_clean [''name'' \<mapsto> raw]) ''name'' = Some (py_strip raw)"
proof -
  from assms obtain v where v: "CharField_clean SiteNamesForm_name ([''name'' \<mapsto> raw] ''name'') = Inr v"
    unfolding SiteNamesForm_full_clean_def clean_field_valid by blast
  then have "v = py_strip raw" by (simp add: SiteNamesForm_name_clean)
  with clean_field_Inr[where data = "[''name'' \<mapsto> raw]" and n = "''name''", OF v]
  show ?thesis by (simp add: SiteNamesForm_full_clean_def)
qed

lemma name_char_not_space: "name_char c \<Longrightarrow> \<not> py_isspace c"
  by (auto simp: name_char_def in_range_def py_isspace_def)

lemma name_shape_strip: "name_shape v \<Longrightarrow> py_strip v = v"
proof -
  assume ns: "name_shape v"
  then have ne: "v \<noteq> []" and nc: "list_all name_char v" by (simp_all add: name_shape_def)
  then have "name_char (hd v)" "name_char (last v)" by (simp_all add: list_all_iff)
  then have "\<not> py_isspace (hd v)" "\<not> py_isspace (last v)" by (simp_all add: name_char_not_space)
  with ne py_strip_append[of v "[]"] show ?thesis by simp
qed

lemma name_shape_digit_Cons:
  assumes "is_digit d" "name_shape w"
  shows "name_shape (d # w)"
proof -
  from assms(1) have d: "alnum d" by (simp add: alnum_iff is_digit_def)
  then have nd: "d \<noteq> CHR ''-''" by (rule alnum_not_dash)
  from assms(2) have w: "w \<noteq> []" "list_all name_char w" "take 1 (rev w) \<noteq> ''-''"
    "\<not> adjacent_dashes w" by (simp_all add: name_shape_def)
  from w(1,3) have "last w \<noteq> CHR ''-''" using take1_last[of w] by auto
  with w(1) have "last (d # w) \<noteq> CHR ''-''" by simp
  then have "take 1 (rev (d # w)) \<noteq> ''-''" using take1_last[of "d # w"] by simp
  moreover have "\<not> adjacent_dashes (d # w)" using nd w(4) by (simp add: adjacent_Cons_other)
  moreover have "list_all name_char (d # w)" using d w(2) by (simp add: name_char_iff)
  ultimately show ?thesis using nd by (simp add: name_shape_def)
qed

text \<open>
  C2 (as amended). The name field accepts a submitted string exactly when the string,
  with the whitespace at both ends stripped, has between 2 and 32 characters and is a
  well-formed name; the cleaned value is the stripped string.
\<close>

theorem SiteNamesForm_accepts_iff_stripped_well_formed:
  "(is_valid (SiteNamesForm_full_clean [''name'' \<mapsto> raw]) \<longleftrightarrow>
      2 \<le> length (py_strip raw) \<and> length (py_strip raw) \<le> 32 \<and> name_shape (py_strip raw))
   \<and> (is_valid (SiteNamesForm_full_clean [''name'' \<mapsto> raw]) \<longrightarrow>
      cleaned_data (SiteNamesForm_full_clean [''name'' \<mapsto> raw]) ''name'' = Some (py_strip raw))"
  using SiteNamesForm_valid_iff SiteNamesForm_cleaned by blast

theorem SiteNamesForm_accepts_iff_stripped_well_formed_witness:
  "is_valid (SiteNamesForm_full_clean [''name'' \<mapsto> '' my-site2 ''])
   \<and> cleaned_data (SiteNamesForm_full_clean [''name'' \<mapsto> '' my-site2 '']) ''name''
       = Some ''my-site2''"
proof -
  have s: "py_strip '' my-site2 '' = ''my-site2''" by code_simp
  have "2 \<le> length ''my-site2'' \<and> length ''my-site2'' \<le> 32 \<and> name_shape ''my-site2''"
    by code_simp
  with s SiteNamesForm_accepts_iff_stripped_well_formed[of "'' my-site2 ''"]
  show ?thesis by simp
qed

text \<open>
  The claim as it is written, for the submitted string itself, fails for a name that is
  padded with whitespace: the form accepts it although it is not well-formed.
\<close>

theorem SiteNamesForm_accepts_padded_name:
  "is_valid (SiteNamesForm_full_clean [''name'' \<mapsto> '' ab''])
   \<and> \<not> (2 \<le> length '' ab'' \<and> length '' ab'' \<le> 32 \<and> name_shape '' ab'')
   \<and> \<not> py_search name_regex '' ab''"
  by code_simp

text \<open>
  C8. A name may begin with a digit: a digit in front of a well-formed name of at most
  31 characters gives a name that the form accepts, for example \<open>0a\<close>. The pattern has
  digits and lowercase letters in one class; the help text of \<open>SiteCreateForm\<close>, which
  says that names cannot start with a number, is not what the pattern enforces.
\<close>

theorem SiteNamesForm_accepts_leading_digit:
  "is_digit d \<and> name_shape w \<and> length w \<le> 31 \<longrightarrow>
     is_valid (SiteNamesForm_full_clean [''name'' \<mapsto> d # w])"
proof
  assume a: "is_digit d \<and> name_shape w \<and> length w \<le> 31"
  then have ns: "name_shape (d # w)" by (simp add: name_shape_digit_Cons)
  then have "py_strip (d # w) = d # w" by (rule name_shape_strip)
  moreover from a have "w \<noteq> []" by (auto simp: name_shape_def)
  then have "2 \<le> length (d # w)" by (cases w) simp_all
  ultimately show "is_valid (SiteNamesForm_full_clean [''name'' \<mapsto> d # w])"
    using ns a by (simp add: SiteNamesForm_valid_iff)
qed

theorem SiteNamesForm_accepts_leading_digit_witness:
  "is_digit CHR ''0'' \<and> name_shape ''a'' \<and> length ''a'' \<le> 31
   \<and> is_valid (SiteNamesForm_full_clean [''name'' \<mapsto> ''0a''])"
proof -
  have h: "is_digit CHR ''0'' \<and> name_shape ''a'' \<and> length ''a'' \<le> 31" by code_simp
  with SiteNamesForm_accepts_leading_digit[of "CHR ''0''" "''a''"] show ?thesis by simp
qed

subsection \<open>The memory limit field\<close>

lemma mem_shape_digits: "ds \<noteq> [] \<Longrightarrow> list_all (py_isdecimal nd) ds \<Longrightarrow> mem_shape nd ds"
  unfolding mem_shape_def by blast

lemma mem_shape_digits_suffix:
  "ds \<noteq> [] \<Longrightarrow> list_all (py_isdecimal nd) ds \<Longrightarrow> list_all cp_isspace ws
     \<Longrightarrow> sfx \<in> set mem_suffixes \<Longrightarrow> mem_shape nd (ds @ ws @ sfx)"
  unfolding mem_shape_def by blast

lemma mem_shape_hd:
  assumes "mem_shape nd v" "v \<noteq> []"
  shows "py_isdecimal nd (hd v)"
proof -
  from assms obtain ds ws sfx where ds: "ds \<noteq> []" "list_all (py_isdecimal nd) ds"
    and v: "v = ds \<or> v = ds @ ws @ sfx"
    unfolding mem_shape_def by blast
  from v ds(1) have "hd v = hd ds" by auto
  with ds show ?thesis by (cases ds) auto
qed

text \<open>
  Whatever the table of digits, the limit \<open>1\<close> with a blank in front is accepted and is no
  well-formed limit.
\<close>

lemma mem_limit_padded_accepted:
  "UCharField_clean (SiteResourceLimitsForm_mem_limit nd) (Some (ustr '' 1'')) = Inr (ustr ''1'')"
proof -
  have "cp_strip (ustr '' 1'') = ustr ''1''" by (simp add: cp_strip_def ustr_def cp_isspace_def)
  moreover have "mem_shape nd (ustr ''1'')"
    by (rule mem_shape_digits) (simp_all add: ustr_def py_isdecimal_def)
  ultimately show ?thesis by (simp add: mem_limit_clean ustr_def)
qed

lemma mem_limit_padded_not_well_formed: "\<not> mem_shape nd (ustr '' 1'')"
proof
  assume "mem_shape nd (ustr '' 1'')"
  then have "py_isdecimal nd (hd (ustr '' 1''))" by (rule mem_shape_hd) (simp add: ustr_def)
  then show False by (simp add: ustr_def py_isdecimal_def)
qed

text \<open>
  C5 (as amended). The memory limit field accepts a submitted string exactly when the
  string, with the whitespace at both ends stripped, has at most 10 characters and is
  empty or a run of decimal digits followed by nothing or by optional whitespace and one
  of \<open>KiB\<close>, \<open>MiB\<close>, \<open>GiB\<close>, \<open>KB\<close>, \<open>MB\<close>, \<open>GB\<close>; the cleaned value is the stripped string.
  The digits are those of the table that \<open>\d\<close> stands for, the whitespace is that of
  \<open>str.isspace\<close>.
\<close>

theorem mem_limit_accepts_iff_stripped_well_formed:
  "UCharField_clean (SiteResourceLimitsForm_mem_limit nd) (Some raw) = Inr v \<longleftrightarrow>
     v = cp_strip raw \<and> length v \<le> 10 \<and> mem_shape nd v"
  by (rule mem_limit_clean)

theorem mem_limit_accepts_iff_stripped_well_formed_witness:
  "UCharField_clean (SiteResourceLimitsForm_mem_limit arabic_indic) (Some (ustr '' 512 MiB''))
     = Inr (ustr ''512 MiB'')
   \<and> UCharField_clean (SiteResourceLimitsForm_mem_limit arabic_indic) (Some (ustr ''4096''))
     = Inr (ustr ''4096'')
   \<and> UCharField_clean (SiteResourceLimitsForm_mem_limit arabic_indic) (Some [0x661, 0x662, 0x663])
     = Inr [0x661, 0x662, 0x663]"
proof (intro conjI)
  have s1: "cp_strip (ustr '' 512 MiB'') = ustr ''512 MiB''" by (simp add: cp_strip_def ustr_def cp_isspace_def)
  have "mem_shape arabic_indic (ustr ''512'' @ ustr '' '' @ ustr ''MiB'')"
    by (rule mem_shape_digits_suffix)
       (simp_all add: ustr_def py_isdecimal_def cp_isspace_def mem_suffixes_def)
  then have m1: "mem_shape arabic_indic (ustr ''512 MiB'')" by (simp add: ustr_def)
  have l1: "length (ustr ''512 MiB'') \<le> 10" by (simp add: ustr_def)
  show "UCharField_clean (SiteResourceLimitsForm_mem_limit arabic_indic) (Some (ustr '' 512 MiB''))
     = Inr (ustr ''512 MiB'')"
    using mem_limit_accepts_iff_stripped_well_formed[of arabic_indic "ustr '' 512 MiB''"
        "ustr ''512 MiB''"] s1 m1 l1 by simp
next
  have s2: "cp_strip (ustr ''4096'') = ustr ''4096''" by (simp add: cp_strip_def ustr_def cp_isspace_def)
  have m2: "mem_shape arabic_indic (ustr ''4096'')"
    by (rule mem_shape_digits) (simp_all add: ustr_def py_isdecimal_def)
  have l2: "length (ustr ''4096'') \<le> 10" by (simp add: ustr_def)
  show "UCharField_clean (SiteResourceLimitsForm_mem_limit arabic_indic) (Some (ustr ''4096''))
     = Inr (ustr ''4096'')"
    using mem_limit_accepts_iff_stripped_well_formed[of arabic_indic "ustr ''4096''" "ustr ''4096''"]
      s2 m2 l2 by simp
next
  have s3: "cp_strip [0x661, 0x662, 0x663] = [0x661, 0x662, 0x663]" by (simp add: cp_strip_def ustr_def cp_isspace_def)
  have m3: "mem_shape arabic_indic [0x661, 0x662, 0x663]"
    by (rule mem_shape_digits) (simp_all add: py_isdecimal_def arabic_indic_def)
  show "UCharField_clean (SiteResourceLimitsForm_mem_limit arabic_indic) (Some [0x661, 0x662, 0x663])
     = Inr [0x661, 0x662, 0x663]"
    using mem_limit_accepts_iff_stripped_well_formed[of arabic_indic "[0x661, 0x662, 0x663]"
        "[0x661, 0x662, 0x663]"] s3 m3 by simp
qed

text \<open>
  The claim as it is written, for the submitted string itself, fails for a limit that is
  padded with whitespace: the field accepts it although the pattern does not match it.
\<close>

theorem mem_limit_accepts_padded_limit:
  "UCharField_clean (SiteResourceLimitsForm_mem_limit arabic_indic) (Some (ustr '' 1''))
     = Inr (ustr ''1'')
   \<and> \<not> (length (ustr '' 1'') \<le> 10
        \<and> (ustr '' 1'' = [] \<or> cp_search (mem_regex arabic_indic) (ustr '' 1'')))
   \<and> \<not> mem_shape arabic_indic (ustr '' 1'')"
proof (intro conjI)
  show "UCharField_clean (SiteResourceLimitsForm_mem_limit arabic_indic) (Some (ustr '' 1''))
     = Inr (ustr ''1'')"
    by (rule mem_limit_padded_accepted)
  have ns: "ustr '' 1'' = [] \<or> \<not> cp_isspace (last (ustr '' 1''))"
    by (simp add: ustr_def cp_isspace_def)
  have "\<not> cp_search (mem_regex arabic_indic) (ustr '' 1'')"
    unfolding cp_search_mem_stripped[OF ns] by (rule mem_limit_padded_not_well_formed)
  moreover have "ustr '' 1'' \<noteq> []" by (simp add: ustr_def)
  ultimately show "\<not> (length (ustr '' 1'') \<le> 10
        \<and> (ustr '' 1'' = [] \<or> cp_search (mem_regex arabic_indic) (ustr '' 1'')))" by simp
  show "\<not> mem_shape arabic_indic (ustr '' 1'')" by (rule mem_limit_padded_not_well_formed)
qed

subsection \<open>The domain form\<close>

lemma py_strip_keeps_suffix:
  assumes "t \<noteq> []" "\<not> py_isspace (hd t)" "\<not> py_isspace (last t)" "py_endswith raw t"
  shows "\<exists>p. py_strip raw = p @ t"
proof -
  from assms(4) obtain p where "raw = p @ t" unfolding py_endswith_iff by blast
  with py_strip_append[OF assms(1-3), of p] show ?thesis by blast
qed

lemma domain_to_python: "CharField_to_python DomainForm_domain (Some raw) = py_strip raw"
  by (rule to_python_strip) (simp add: DomainForm_domain_def)

lemma domain_clean_Inr:
  "CharField_clean DomainForm_domain (Some raw) = Inr v \<Longrightarrow> v = py_strip raw"
  unfolding CharField_clean_Inr_iff domain_to_python by simp

lemma domain_clean_no_match:
  assumes "py_strip raw \<noteq> []" "\<not> py_search domain_regex (py_strip raw)"
  shows "\<exists>es. CharField_clean DomainForm_domain (Some raw) = Inl es
    \<and> Invalid domain_message \<in> set es"
proof -
  have vals: "CharField_validators DomainForm_domain =
      [RegexValidator domain_regex domain_message, MaxLengthValidator 255,
       ProhibitNullCharactersValidator]"
    by (simp add: CharField_validators_def DomainForm_domain_def)
  show ?thesis
    unfolding CharField_clean_def domain_to_python vals
    using assms by (simp add: RegexValidator_def Let_def)
qed

lemma DomainForm_clean_keeps_errors:
  "set (errors st) \<subseteq> set (errors (DomainForm_clean su st))"
  by (auto simp: DomainForm_clean_def add_error_def split: option.splits)

lemma DomainForm_clean_superuser: "DomainForm_clean True st = st"
  by (simp add: DomainForm_clean_def)

lemma DomainForm_field_failure:
  assumes "CharField_clean DomainForm_domain (Some raw) = Inl es"
  shows "set (map (Pair ''domain'') es)
    \<subseteq> set (errors (DomainForm_full_clean su [''domain'' \<mapsto> raw]))"
proof -
  have "CharField_clean DomainForm_domain ([''domain'' \<mapsto> raw] ''domain'') = Inl es"
    using assms by simp
  from clean_field_Inl(1)[where data = "[''domain'' \<mapsto> raw]" and n = "''domain''"
      and st = new_form, OF this]
  have "errors (clean_field ''domain'' DomainForm_domain [''domain'' \<mapsto> raw] new_form)
      = map (Pair ''domain'') es" by (simp add: new_form_def)
  with DomainForm_clean_keeps_errors[of
      "clean_field ''domain'' DomainForm_domain [''domain'' \<mapsto> raw] new_form" su]
  show ?thesis by (simp add: DomainForm_full_clean_def)
qed

lemma DomainForm_field_success:
  assumes "CharField_clean DomainForm_domain (Some raw) = Inr v"
  shows "DomainForm_full_clean su [''domain'' \<mapsto> raw] =
    DomainForm_clean su (new_form\<lparr>cleaned_data := [''domain'' \<mapsto> v]\<rparr>)"
proof -
  have "CharField_clean DomainForm_domain ([''domain'' \<mapsto> raw] ''domain'') = Inr v"
    using assms by simp
  from clean_field_Inr[where data = "[''domain'' \<mapsto> raw]" and n = "''domain''"
      and st = new_form, OF this]
  show ?thesis by (simp add: DomainForm_full_clean_def new_form_def)
qed

lemma DomainForm_suffix_error:
  assumes "py_endswith raw ''tjhsst.edu''"
  shows "\<exists>e. (''domain'', e) \<in> set (errors (DomainForm_full_clean False [''domain'' \<mapsto> raw]))"
proof (cases "CharField_clean DomainForm_domain (Some raw)")
  case (Inl es)
  then have "es \<noteq> []" by (rule CharField_clean_Inl_nonempty)
  then obtain e where "e \<in> set es" by (cases es) auto
  with DomainForm_field_failure[OF Inl, of False] show ?thesis by auto
next
  case (Inr v)
  then have "v = py_strip raw" by (rule domain_clean_Inr)
  moreover have "\<exists>p. py_strip raw = p @ ''tjhsst.edu''"
    by (rule py_strip_keeps_suffix[OF _ _ _ assms]) (simp_all add: py_isspace_def)
  ultimately have "py_endswith v ''tjhsst.edu''" unfolding py_endswith_iff by simp
  then have "errors (DomainForm_full_clean False [''domain'' \<mapsto> raw])
      = [(''domain'', Message admin_message)]"
    unfolding DomainForm_field_success[OF Inr]
    by (simp add: DomainForm_clean_def add_error_def new_form_def)
  then show ?thesis by simp
qed

lemma DomainForm_sites_error:
  assumes "raw = ''sites.tjhsst.edu'' \<or> py_endswith raw ''.sites.tjhsst.edu''"
  shows "(''domain'', Invalid domain_message)
    \<in> set (errors (DomainForm_full_clean su [''domain'' \<mapsto> raw]))"
proof -
  have v: "py_strip raw = ''sites.tjhsst.edu'' \<or> (\<exists>pre. py_strip raw = pre @ ''.sites.tjhsst.edu'')"
    using assms
  proof
    assume "raw = ''sites.tjhsst.edu''"
    moreover have "py_strip ''sites.tjhsst.edu'' = ''sites.tjhsst.edu''" by code_simp
    ultimately show ?thesis by simp
  next
    assume e: "py_endswith raw ''.sites.tjhsst.edu''"
    have "\<exists>p. py_strip raw = p @ ''.sites.tjhsst.edu''"
      by (rule py_strip_keeps_suffix[OF _ _ _ e]) (simp_all add: py_isspace_def)
    then show ?thesis by blast
  qed
  then have "\<not> py_search domain_regex (py_strip raw)" by (rule sites_domain_no_match)
  moreover from v have "py_strip raw \<noteq> []" by auto
  ultimately obtain es where es: "CharField_clean DomainForm_domain (Some raw) = Inl es"
    "Invalid domain_message \<in> set es" using domain_clean_no_match by blast
  with DomainForm_field_failure[OF es(1), of su] show ?thesis by auto
qed

text \<open>
  C1 (as amended). For a user who is not a superuser, a submitted domain that ends with
  \<open>tjhsst.edu\<close> always leaves an error on the domain field. For a superuser \<open>clean\<close> adds
  no error at all, so the form's result is that of the field's own checks: a domain with
  the reserved suffix that passes them is accepted.
\<close>

theorem DomainForm_reserved_suffix:
  "(\<not> su \<and> py_endswith raw ''tjhsst.edu'' \<longrightarrow>
      (\<exists>e. (''domain'', e) \<in> set (errors (DomainForm_full_clean su [''domain'' \<mapsto> raw]))))
   \<and> (su \<longrightarrow> DomainForm_full_clean su data = clean_field ''domain'' DomainForm_domain data new_form)
   \<and> (su \<and> CharField_clean DomainForm_domain (Some raw) = Inr v \<longrightarrow>
        is_valid (DomainForm_full_clean su [''domain'' \<mapsto> raw])
        \<and> cleaned_data (DomainForm_full_clean su [''domain'' \<mapsto> raw]) ''domain'' = Some v)"
proof (intro conjI impI)
  assume "\<not> su \<and> py_endswith raw ''tjhsst.edu''"
  then show "\<exists>e. (''domain'', e) \<in> set (errors (DomainForm_full_clean su [''domain'' \<mapsto> raw]))"
    using DomainForm_suffix_error[of raw] by simp
next
  assume su
  then show "DomainForm_full_clean su data = clean_field ''domain'' DomainForm_domain data new_form"
    by (simp add: DomainForm_full_clean_def DomainForm_clean_superuser)
next
  assume a: "su \<and> CharField_clean DomainForm_domain (Some raw) = Inr v"
  then have "DomainForm_full_clean su [''domain'' \<mapsto> raw]
      = new_form\<lparr>cleaned_data := [''domain'' \<mapsto> v]\<rparr>"
    using DomainForm_field_success[of raw v su] by (simp add: DomainForm_clean_superuser)
  then show "is_valid (DomainForm_full_clean su [''domain'' \<mapsto> raw])"
    and "cleaned_data (DomainForm_full_clean su [''domain'' \<mapsto> raw]) ''domain'' = Some v"
    by (simp_all add: is_valid_def new_form_def)
qed

theorem DomainForm_reserved_suffix_witness:
  "py_endswith ''www.tjhsst.edu'' ''tjhsst.edu''
   \<and> (\<exists>e. (''domain'', e) \<in> set (errors (DomainForm_full_clean False [''domain'' \<mapsto> ''www.tjhsst.edu''])))
   \<and> CharField_clean DomainForm_domain (Some ''www.tjhsst.edu'') = Inr ''www.tjhsst.edu''
   \<and> is_valid (DomainForm_full_clean True [''domain'' \<mapsto> ''www.tjhsst.edu''])
   \<and> cleaned_data (DomainForm_full_clean True [''domain'' \<mapsto> ''www.tjhsst.edu'']) ''domain''
       = Some ''www.tjhsst.edu''"
proof -
  have e: "py_endswith ''www.tjhsst.edu'' ''tjhsst.edu''" by code_simp
  have f: "CharField_clean DomainForm_domain (Some ''www.tjhsst.edu'') = Inr ''www.tjhsst.edu''"
    by code_simp
  have "\<exists>e. (''domain'', e)
      \<in> set (errors (DomainForm_full_clean False [''domain'' \<mapsto> ''www.tjhsst.edu'']))"
    using e DomainForm_reserved_suffix[where su = False and raw = "''www.tjhsst.edu''"]
    by blast
  moreover have "is_valid (DomainForm_full_clean True [''domain'' \<mapsto> ''www.tjhsst.edu''])
      \<and> cleaned_data (DomainForm_full_clean True [''domain'' \<mapsto> ''www.tjhsst.edu'']) ''domain''
          = Some ''www.tjhsst.edu''"
    using f DomainForm_reserved_suffix[where su = True and raw = "''www.tjhsst.edu''"
        and v = "''www.tjhsst.edu''"]
    by blast
  ultimately show ?thesis using e f by blast
qed

text \<open>
  The claim as it is written fails for a superuser: \<open>sites.tjhsst.edu\<close> ends with the
  reserved suffix and is rejected all the same, by the pattern of the field.
\<close>

theorem DomainForm_superuser_sites_domain_rejected:
  "py_endswith ''sites.tjhsst.edu'' ''tjhsst.edu''
   \<and> \<not> is_valid (DomainForm_full_clean True [''domain'' \<mapsto> ''sites.tjhsst.edu''])"
  by code_simp

text \<open>
  C3. Whoever submits it, a domain that is \<open>sites.tjhsst.edu\<close> or ends with
  \<open>.sites.tjhsst.edu\<close> fails the pattern of the field: the form carries the field's
  error and is not valid.
\<close>

theorem DomainForm_rejects_sites_domains:
  "raw = ''sites.tjhsst.edu'' \<or> py_endswith raw ''.sites.tjhsst.edu'' \<longrightarrow>
     (''domain'', Invalid domain_message)
        \<in> set (errors (DomainForm_full_clean su [''domain'' \<mapsto> raw]))
     \<and> \<not> is_valid (DomainForm_full_clean su [''domain'' \<mapsto> raw])"
proof
  assume "raw = ''sites.tjhsst.edu'' \<or> py_endswith raw ''.sites.tjhsst.edu''"
  then have "(''domain'', Invalid domain_message)
      \<in> set (errors (DomainForm_full_clean su [''domain'' \<mapsto> raw]))"
    by (rule DomainForm_sites_error)
  then show "(''domain'', Invalid domain_message)
        \<in> set (errors (DomainForm_full_clean su [''domain'' \<mapsto> raw]))
     \<and> \<not> is_valid (DomainForm_full_clean su [''domain'' \<mapsto> raw])"
    by (auto simp: is_valid_def)
qed

theorem DomainForm_rejects_sites_domains_witness:
  "py_endswith ''my.sites.tjhsst.edu'' ''.sites.tjhsst.edu''
   \<and> \<not> is_valid (DomainForm_full_clean True [''domain'' \<mapsto> ''my.sites.tjhsst.edu''])
   \<and> \<not> is_valid (DomainForm_full_clean False [''domain'' \<mapsto> ''my.sites.tjhsst.edu''])"
proof -
  have e: "py_endswith ''my.sites.tjhsst.edu'' ''.sites.tjhsst.edu''" by code_simp
  with DomainForm_rejects_sites_domains[of "''my.sites.tjhsst.edu''" True]
    DomainForm_rejects_sites_domains[of "''my.sites.tjhsst.edu''" False]
  show ?thesis by simp
qed

text \<open>
  C7. The restriction for users who are not superusers looks at the characters only:
  whatever comes before it, a domain that ends with \<open>tjhsst.edu\<close> is rejected. So is
  \<open>nottjhsst.edu\<close>, which passes the field's own checks and is no subdomain of
  \<open>tjhsst.edu\<close>; its one error is the one that \<open>clean\<close> adds.
\<close>

theorem DomainForm_suffix_test_is_textual:
  "\<not> is_valid (DomainForm_full_clean False [''domain'' \<mapsto> pre @ ''tjhsst.edu''])
   \<and> CharField_clean DomainForm_domain (Some ''nottjhsst.edu'') = Inr ''nottjhsst.edu''
   \<and> errors (DomainForm_full_clean False [''domain'' \<mapsto> ''nottjhsst.edu''])
       = [(''domain'', Message admin_message)]"
proof (intro conjI)
  have "py_endswith (pre @ ''tjhsst.edu'') ''tjhsst.edu''" unfolding py_endswith_iff by blast
  then have "\<exists>e. (''domain'', e)
      \<in> set (errors (DomainForm_full_clean False [''domain'' \<mapsto> pre @ ''tjhsst.edu'']))"
    by (rule DomainForm_suffix_error)
  then show "\<not> is_valid (DomainForm_full_clean False [''domain'' \<mapsto> pre @ ''tjhsst.edu''])"
    by (auto simp: is_valid_def)
next
  show "CharField_clean DomainForm_domain (Some ''nottjhsst.edu'') = Inr ''nottjhsst.edu''"
    by code_simp
next
  show "errors (DomainForm_full_clean False [''domain'' \<mapsto> ''nottjhsst.edu''])
       = [(''domain'', Message admin_message)]"
    by code_simp
qed

theorem DomainForm_suffix_test_is_textual_witness:
  "\<not> is_valid (DomainForm_full_clean False [''domain'' \<mapsto> ''mytjhsst.edu''])"
  using DomainForm_suffix_test_is_textual[of "''my''"] by simp

subsection \<open>The image form\<close>

lemma packages_clean:
  "CharField_clean ImageSelectForm_packages (Some raw) =
     (if CHR 0x00 \<in> set (py_strip raw) then Inl [NullCharacters] else Inr (py_strip raw))"
proof -
  have tp: "CharField_to_python ImageSelectForm_packages (Some raw) = py_strip raw"
    by (rule to_python_strip) (simp add: ImageSelectForm_packages_def)
  have vals: "CharField_validators ImageSelectForm_packages = [ProhibitNullCharactersValidator]"
    by (simp add: CharField_validators_def ImageSelectForm_packages_def)
  have req: "\<not> required ImageSelectForm_packages" by (simp add: ImageSelectForm_packages_def)
  show ?thesis
    unfolding CharField_clean_def tp vals
    using req by (auto simp: Let_def ProhibitNullCharactersValidator_def)
qed

lemma ImageSelectForm_clean_tokens:
  assumes "cleaned_data st ''packages'' = Some p"
  shows "ImageSelectForm_clean m st =
    Inr (if \<exists>t. is_token t p \<and> m < length t
         then add_error ''packages'' (Message packages_message) st else st)"
proof -
  have "list_ex (\<lambda>name. m < length name) (py_split (py_strip p))
      \<longleftrightarrow> (\<exists>t. is_token t p \<and> m < length t)"
    unfolding list_ex_iff py_split_strip_tokens by blast
  then have eq: "list_ex (\<lambda>name. length name > m) (py_split (py_strip p))
      = (\<exists>t. is_token t p \<and> m < length t)" by simp
  show ?thesis
  proof (cases "\<exists>t. is_token t p \<and> m < length t")
    case True
    then have "list_ex (\<lambda>name. length name > m) (py_split (py_strip p))" unfolding eq .
    then have "ImageSelectForm_clean m st
        = Inr (add_error ''packages'' (Message packages_message) st)"
      unfolding ImageSelectForm_clean_def assms by (simp add: Let_def)
    then show ?thesis unfolding if_P[OF True] .
  next
    case False
    then have "\<not> list_ex (\<lambda>name. length name > m) (py_split (py_strip p))" unfolding eq .
    then have "ImageSelectForm_clean m st = Inr st"
      unfolding ImageSelectForm_clean_def assms by (simp add: Let_def)
    then show ?thesis unfolding if_not_P[OF False] .
  qed
qed

lemma set_py_strip_subset: "set (py_strip s) \<subseteq> set s"
proof -
  have "set (py_strip s) = set (dropWhile py_isspace (rev (dropWhile py_isspace s)))"
    by (simp add: py_strip_def)
  also have "\<dots> \<subseteq> set (rev (dropWhile py_isspace s))" by (rule set_dropWhileD[THEN subsetI])
  also have "\<dots> \<subseteq> set s" by (auto dest: set_dropWhileD)
  finally show ?thesis .
qed

lemma dropWhile_keeps: "\<not> P c \<Longrightarrow> c \<in> set s \<Longrightarrow> c \<in> set (dropWhile P s)"
  by (induction s) auto

lemma py_strip_keeps: "\<not> py_isspace c \<Longrightarrow> c \<in> set s \<Longrightarrow> c \<in> set (py_strip s)"
proof -
  assume c: "\<not> py_isspace c" "c \<in> set s"
  then have "c \<in> set (rev (dropWhile py_isspace s))" by (simp add: dropWhile_keeps)
  with c(1) have "c \<in> set (dropWhile py_isspace (rev (dropWhile py_isspace s)))"
    by (rule dropWhile_keeps)
  then show ?thesis by (simp add: py_strip_def)
qed

lemma null_in_py_strip: "CHR 0x00 \<in> set (py_strip s) \<longleftrightarrow> CHR 0x00 \<in> set s"
proof
  assume "CHR 0x00 \<in> set (py_strip s)"
  then show "CHR 0x00 \<in> set s" using set_py_strip_subset by blast
next
  have "\<not> py_isspace (CHR 0x00)" by (simp add: py_isspace_def)
  moreover assume "CHR 0x00 \<in> set s"
  ultimately show "CHR 0x00 \<in> set (py_strip s)" by (rule py_strip_keeps)
qed

lemma is_token_py_strip: "is_token t (py_strip s) \<longleftrightarrow> is_token t s"
  using py_split_tokens[of t "py_strip s"] py_split_tokens[of t s] by (simp add: py_split_strip)

text \<open>
  The whole of the form's cleaning, from the submitted string. If the string holds a null
  character, the field fails, the key is missing from \<open>cleaned_data\<close> and the lookup in
  \<open>clean\<close> raises. If it holds none, \<open>clean\<close> finds the stripped string and the outcome is
  decided by the tokens of the submitted string: the one error on the packages field
  when a token is longer than the maximum, no error otherwise.
\<close>

lemma ImageSelectForm_full_clean_null:
  assumes "CHR 0x00 \<in> set raw"
  shows "ImageSelectForm_full_clean m [''packages'' \<mapsto> raw] = Inl KeyError"
proof -
  from assms have "CHR 0x00 \<in> set (py_strip raw)" by (simp add: null_in_py_strip)
  then show ?thesis
    by (simp add: ImageSelectForm_full_clean_def clean_field_def packages_clean new_form_def
        add_error_def ImageSelectForm_clean_def)
qed

lemma ImageSelectForm_full_clean_submitted:
  assumes "CHR 0x00 \<notin> set raw"
  shows "ImageSelectForm_full_clean m [''packages'' \<mapsto> raw] =
    Inr (if \<exists>t. is_token t raw \<and> m < length t
         then \<lparr>cleaned_data = Map.empty, errors = [(''packages'', Message packages_message)]\<rparr>
         else \<lparr>cleaned_data = [''packages'' \<mapsto> py_strip raw], errors = []\<rparr>)"
proof -
  let ?st = "new_form\<lparr>cleaned_data := [''packages'' \<mapsto> py_strip raw]\<rparr>"
  from assms have "CHR 0x00 \<notin> set (py_strip raw)" by (simp add: null_in_py_strip)
  then have full: "ImageSelectForm_full_clean m [''packages'' \<mapsto> raw] = ImageSelectForm_clean m ?st"
    by (simp add: ImageSelectForm_full_clean_def clean_field_def packages_clean new_form_def)
  have k: "cleaned_data ?st ''packages'' = Some (py_strip raw)" by simp
  have added: "add_error ''packages'' (Message packages_message) ?st
      = \<lparr>cleaned_data = Map.empty, errors = [(''packages'', Message packages_message)]\<rparr>"
    by (simp add: add_error_def new_form_def)
  have same: "?st = \<lparr>cleaned_data = [''packages'' \<mapsto> py_strip raw], errors = []\<rparr>"
    by (simp add: new_form_def)
  show ?thesis
    unfolding full ImageSelectForm_clean_tokens[OF k] is_token_py_strip added
    using same by simp
qed

text \<open>
  C4. The submitted string \<open>aaaa\<close> followed by a null character is one token of five
  characters, longer than a maximum of 3, yet the form does not add the error on the
  packages field: its \<open>clean\<close> raises \<open>KeyError\<close>. Without the null character the same
  token gets the error, as specified.
\<close>

theorem ImageSelectForm_null_character_KeyError:
  "is_token (''aaaa'' @ [CHR 0x00]) (''aaaa'' @ [CHR 0x00])
   \<and> 3 < length (''aaaa'' @ [CHR 0x00])
   \<and> ImageSelectForm_full_clean 3 [''packages'' \<mapsto> ''aaaa'' @ [CHR 0x00]] = Inl KeyError
   \<and> ImageSelectForm_full_clean 3 [''packages'' \<mapsto> ''aaaa'']
       = Inr \<lparr>cleaned_data = Map.empty, errors = [(''packages'', Message packages_message)]\<rparr>"
proof (intro conjI)
  have "py_split (''aaaa'' @ [CHR 0x00]) = [''aaaa'' @ [CHR 0x00]]" by code_simp
  then show "is_token (''aaaa'' @ [CHR 0x00]) (''aaaa'' @ [CHR 0x00])"
    using py_split_tokens[of "''aaaa'' @ [CHR 0x00]" "''aaaa'' @ [CHR 0x00]"] by simp
  show "3 < length (''aaaa'' @ [CHR 0x00])" by simp
  show "ImageSelectForm_full_clean 3 [''packages'' \<mapsto> ''aaaa'' @ [CHR 0x00]] = Inl KeyError"
    by (rule ImageSelectForm_full_clean_null) simp
  have "py_split ''aaaa'' = [''aaaa'']" by code_simp
  then have "is_token ''aaaa'' ''aaaa''" using py_split_tokens[of "''aaaa''" "''aaaa''"] by simp
  then have long: "\<exists>t. is_token t ''aaaa'' \<and> 3 < length t" by (intro exI[of _ "''aaaa''"]) simp
  have "CHR 0x00 \<notin> set ''aaaa''" by simp
  from ImageSelectForm_full_clean_submitted[OF this, of 3]
  show "ImageSelectForm_full_clean 3 [''packages'' \<mapsto> ''aaaa'']
       = Inr \<lparr>cleaned_data = Map.empty, errors = [(''packages'', Message packages_message)]\<rparr>"
    unfolding if_P[OF long] .
qed

subsection \<open>The CPU share field\<close>

lemma cpus_validators:
  "FloatField_validators SiteResourceLimitsForm_cpus = [MaxValueValidator 3, MinValueValidator 0]"
  by (simp add: FloatField_validators_def SiteResourceLimitsForm_cpus_def)

lemma cpus_clean_blank:
  "FloatField_clean float SiteResourceLimitsForm_cpus (Some []) = Inr None"
  by (simp add: FloatField_clean_def FloatField_to_python_def FloatField_validate_def
      SiteResourceLimitsForm_cpus_def)

lemma cpus_clean_error:
  assumes "s \<noteq> []" "float s = None"
  shows "FloatField_clean float SiteResourceLimitsForm_cpus (Some s) = Inl [Invalid number_message]"
  using assms by (simp add: FloatField_clean_def FloatField_to_python_def)

lemma cpus_clean_parsed:
  assumes "s \<noteq> []" "float s = Some x"
  shows "FloatField_clean float SiteResourceLimitsForm_cpus (Some s) =
    (if \<not> isfinite x then Inl [Invalid number_message]
     else if float_gt x 3 then Inl [MaxValue 3]
     else if float_lt x 0 then Inl [MinValue 0]
     else Inr (Some x))"
  using assms
  by (cases x)
     (simp_all add: FloatField_clean_def FloatField_to_python_def FloatField_validate_def
        cpus_validators MaxValueValidator_def MinValueValidator_def)

lemma cpus_accepts_iff:
  "(\<exists>v. FloatField_clean float SiteResourceLimitsForm_cpus (Some s) = Inr v) \<longleftrightarrow>
     s = [] \<or> (\<exists>x. float s = Some (Finite x) \<and> 0 \<le> x \<and> x \<le> 3)"
proof (cases "s = []")
  case True
  then show ?thesis by (simp add: cpus_clean_blank)
next
  case False
  show ?thesis
  proof (cases "float s")
    case None
    with False show ?thesis by (simp add: cpus_clean_error)
  next
    case (Some x)
    with False show ?thesis by (cases x) (auto simp: cpus_clean_parsed)
  qed
qed

text \<open>
  C6 (as amended). The CPU share field accepts a submitted text exactly when the text is
  blank or \<open>float()\<close> reads a finite double \<open>x\<close> with \<open>0 \<le> x \<le> 3\<close> from it; the cleaned value
  is \<open>None\<close> or that double. A text from which \<open>float()\<close> reads a double below 0 or above
  3 is rejected. This holds whatever function \<open>float()\<close> is.
\<close>

theorem cpus_accepts_iff_blank_or_parsed_in_bounds:
  "((\<exists>v. FloatField_clean float SiteResourceLimitsForm_cpus (Some s) = Inr v) \<longleftrightarrow>
      s = [] \<or> (\<exists>x. float s = Some (Finite x) \<and> 0 \<le> x \<and> x \<le> 3))
   \<and> (s \<noteq> [] \<and> float s = Some (Finite x) \<and> 0 \<le> x \<and> x \<le> 3 \<longrightarrow>
        FloatField_clean float SiteResourceLimitsForm_cpus (Some s) = Inr (Some (Finite x)))
   \<and> (s \<noteq> [] \<and> float s = Some (Finite x) \<and> (x < 0 \<or> 3 < x) \<longrightarrow>
        (\<exists>es. FloatField_clean float SiteResourceLimitsForm_cpus (Some s) = Inl es))
   \<and> FloatField_clean float SiteResourceLimitsForm_cpus (Some []) = Inr None"
proof (intro conjI impI)
  show "(\<exists>v. FloatField_clean float SiteResourceLimitsForm_cpus (Some s) = Inr v) \<longleftrightarrow>
      s = [] \<or> (\<exists>x. float s = Some (Finite x) \<and> 0 \<le> x \<and> x \<le> 3)"
    by (rule cpus_accepts_iff)
next
  assume "s \<noteq> [] \<and> float s = Some (Finite x) \<and> 0 \<le> x \<and> x \<le> 3"
  then show "FloatField_clean float SiteResourceLimitsForm_cpus (Some s) = Inr (Some (Finite x))"
    by (simp add: cpus_clean_parsed)
next
  assume "s \<noteq> [] \<and> float s = Some (Finite x) \<and> (x < 0 \<or> 3 < x)"
  then show "\<exists>es. FloatField_clean float SiteResourceLimitsForm_cpus (Some s) = Inl es"
    by (auto simp: cpus_clean_parsed)
next
  show "FloatField_clean float SiteResourceLimitsForm_cpus (Some []) = Inr None"
    by (rule cpus_clean_blank)
qed

theorem cpus_accepts_iff_blank_or_parsed_in_bounds_witness:
  "float_examples ''1.5'' = Some (Finite (3 / 2))
   \<and> FloatField_clean float_examples SiteResourceLimitsForm_cpus (Some ''1.5'')
       = Inr (Some (Finite (3 / 2)))
   \<and> float_examples ''3.5'' = Some (Finite (7 / 2))
   \<and> (\<exists>es. FloatField_clean float_examples SiteResourceLimitsForm_cpus (Some ''3.5'') = Inl es)
   \<and> float_examples ''-0.5'' = Some (Finite (- 1 / 2))
   \<and> (\<exists>es. FloatField_clean float_examples SiteResourceLimitsForm_cpus (Some ''-0.5'') = Inl es)"
proof -
  have a: "float_examples ''1.5'' = Some (Finite (3 / 2))"
    and b: "float_examples ''3.5'' = Some (Finite (7 / 2))"
    and c: "float_examples ''-0.5'' = Some (Finite (- 1 / 2))"
    by (simp_all add: float_examples_def)
  have "FloatField_clean float_examples SiteResourceLimitsForm_cpus (Some ''1.5'')
       = Inr (Some (Finite (3 / 2)))"
    using a cpus_accepts_iff_blank_or_parsed_in_bounds[of float_examples "''1.5''" "3 / 2"]
    by simp
  moreover have "\<exists>es. FloatField_clean float_examples SiteResourceLimitsForm_cpus (Some ''3.5'') = Inl es"
    using b cpus_accepts_iff_blank_or_parsed_in_bounds[of float_examples "''3.5''" "7 / 2"]
    by simp
  moreover have "\<exists>es. FloatField_clean float_examples SiteResourceLimitsForm_cpus (Some ''-0.5'') = Inl es"
    using c cpus_accepts_iff_blank_or_parsed_in_bounds[of float_examples "''-0.5''" "- 1 / 2"]
    by simp
  ultimately show ?thesis using a b c by blast
qed

text \<open>
  The claim as it is written, for the number that the submitted text writes, fails at
  \<open>3.0000000000000001\<close>: the number is above 3, \<open>float()\<close> reads the double 3.0 from it and
  the field accepts it. The doubles from 2 to 4 lie \<open>1 / 2 ^ 51\<close> apart, and the number is
  less than half of that away from 3.
\<close>

theorem cpus_accepts_number_above_three:
  "decimal_value ''3.0000000000000001'' = Some (30000000000000001 / 10000000000000000)
   \<and> (3 :: real) < 30000000000000001 / 10000000000000000
   \<and> \<bar>30000000000000001 / 10000000000000000 - (3 :: real)\<bar> < 1 / 2 ^ 52
   \<and> FloatField_clean float_examples SiteResourceLimitsForm_cpus (Some ''3.0000000000000001'')
       = Inr (Some (Finite 3))"
proof (intro conjI)
  show "decimal_value ''3.0000000000000001'' = Some (30000000000000001 / 10000000000000000)"
    by (simp add: decimal_value_def is_digit_def in_range_def digits_value_def)
  show "(3 :: real) < 30000000000000001 / 10000000000000000" by simp
  show "\<bar>30000000000000001 / 10000000000000000 - (3 :: real)\<bar> < 1 / 2 ^ 52" by simp
  have "float_examples ''3.0000000000000001'' = Some (Finite 3)" by (simp add: float_examples_def)
  then show "FloatField_clean float_examples SiteResourceLimitsForm_cpus (Some ''3.0000000000000001'')
       = Inr (Some (Finite 3))"
    by (simp add: cpus_clean_parsed)
qed

end
